theory Spec2Isabelle
  imports Main "HOL-Library.Word" "HOL-Library.Monad_Syntax"
begin

unbundle bit_operations_syntax

section \<open>Conventions\<close>

text \<open>
  The development embeds the pure core of \<^verbatim>\<open>tun2socks/engine/proxyclient.go\<close> and
  \<^verbatim>\<open>tun2socks/engine/android.go\<close>.

  \<^item> A Go \<^verbatim>\<open>[]byte\<close> is a list of 8-bit words; a Go \<^verbatim>\<open>string\<close> is a list of
    \<^typ>\<open>char\<close> (HOL characters are bytes, so a non-ASCII literal of the source is its
    UTF-8 byte sequence).
  \<^item> A Go \<^verbatim>\<open>int\<close> used as an offset or a length is a \<^typ>\<open>nat\<close>: the offsets of the
    parsers start at a constant and only grow, by at most 65539 per step beyond the
    length of a slice in memory, so they neither go negative nor overflow.
  \<^item> A run-time panic (index or slice bounds out of range) is the value \<^term>\<open>None\<close>
    of an option type; every index and slice expression of the parsers goes through
    the checked accessors \<open>index\<close> and \<open>subslice\<close> below.
  \<^item> \<^verbatim>\<open>strings.Fields\<close>, \<^verbatim>\<open>strings.TrimSpace\<close>, \<^verbatim>\<open>strings.ToLower\<close> and \<^verbatim>\<open>fmt.Sscanf\<close>, the
    library functions that depend on the Unicode tables, are a parameter of the HTTP
    handler; the other library functions it calls work on bytes and are defined here.
  \<^item> What a connection, the ECH store or the network does is an explicit input: the
    bytes a client sends are a list (a read past its end fails, as at EOF or at the
    deadline), the outcome of each dial and of each refresh is given by an oracle.
\<close>

type_synonym byte = "8 word"

section \<open>Lifecycle: \<^verbatim>\<open>IsRunning\<close> and \<^verbatim>\<open>GetStatus\<close>\<close>

record ProxyClient =
  serverAddr :: string
  serverIP :: string
  token :: string
  dnsServer :: string
  echDomain :: string
  echList :: "byte list"
  listener :: bool
  running :: bool

record AndroidProxyClient =
  client :: ProxyClient

text \<open>\<^verbatim>\<open>func (c *ProxyClient) IsRunning() bool\<close>: reads \<^verbatim>\<open>c.running\<close> under the mutex.\<close>

definition IsRunning :: "ProxyClient \<Rightarrow> bool" where
  "IsRunning c = running c"

text \<open>\<^verbatim>\<open>func (a *AndroidProxyClient) IsRunning() bool\<close>.\<close>

definition Android_IsRunning :: "AndroidProxyClient \<Rightarrow> bool" where
  "Android_IsRunning a = IsRunning (client a)"

text \<open>The two string literals of \<^verbatim>\<open>GetStatus\<close>, as the UTF-8 bytes of the source file:
  U+8FD0 U+884C U+4E2D and U+5DF2 U+505C U+6B62.\<close>

definition status_running :: string where
  "status_running = [CHR 0xE8, CHR 0xBF, CHR 0x90, CHR 0xE8, CHR 0xA1, CHR 0x8C,
                     CHR 0xE4, CHR 0xB8, CHR 0xAD]"

definition status_stopped :: string where
  "status_stopped = [CHR 0xE5, CHR 0xB7, CHR 0xB2, CHR 0xE5, CHR 0x81, CHR 0x9C,
                     CHR 0xE6, CHR 0xAD, CHR 0xA2]"

text \<open>\<^verbatim>\<open>func (a *AndroidProxyClient) GetStatus() string\<close>.\<close>

definition GetStatus :: "AndroidProxyClient \<Rightarrow> string" where
  "GetStatus a = (if IsRunning (client a) then status_running else status_stopped)"

section \<open>Protocol detection: \<^verbatim>\<open>handleConnection\<close>\<close>

text \<open>
  What \<^verbatim>\<open>handleConnection\<close> does to its own connection and to the log, in order. It
  touches no state shared with another connection: its only other effect is the log
  line of the default branch.
\<close>

datatype conn_event =
    SetDeadline nat
  | CallSOCKS5 char
  | CallHTTP char
  | LogUnknownProtocol char
  | ConnWrite string
  | ConnClose

text \<open>
  \<^verbatim>\<open>func (c *ProxyClient) handleConnection(conn net.Conn)\<close>. The argument is the bytes
  the client sends: \<^verbatim>\<open>conn.Read\<close> into a one-byte buffer fails (or reads nothing) when
  there are none. The deferred \<^verbatim>\<open>conn.Close()\<close> runs on every path.
\<close>

definition handleConnection :: "string \<Rightarrow> conn_event list" where
  "handleConnection inp =
     SetDeadline 30 #
     (case inp of
        [] \<Rightarrow> []
      | firstByte # _ \<Rightarrow>
          (if firstByte = CHR 0x05 then [CallSOCKS5 firstByte]
           else if firstByte \<in> set ''CGPHDOT'' then [CallHTTP firstByte]
           else [LogUnknownProtocol firstByte]))
     @ [ConnClose]"

text \<open>The bytes a run writes back to the client.\<close>

fun written :: "conn_event list \<Rightarrow> string" where
  "written [] = []"
| "written (ConnWrite s # es) = s @ written es"
| "written (_ # es) = written es"

section \<open>Dialing with retries: \<^verbatim>\<open>dialWebSocketWithECH\<close>\<close>

text \<open>\<^verbatim>\<open>strings.Contains\<close> and \<^verbatim>\<open>strings.HasPrefix\<close> on byte strings.\<close>

definition HasPrefix :: "string \<Rightarrow> string \<Rightarrow> bool" where
  "HasPrefix s pre = (take (length pre) s = pre)"

fun Contains :: "string \<Rightarrow> string \<Rightarrow> bool" where
  "Contains [] substr = (substr = [])"
| "Contains (c # s) substr = (HasPrefix (c # s) substr \<or> Contains s substr)"

type_synonym ws_conn = nat

text \<open>
  The errors \<^verbatim>\<open>dialWebSocketWithECH\<close> can return: the error of \<^verbatim>\<open>parseServerAddr\<close>, the
  error of \<^verbatim>\<open>getECHList\<close> (store empty), the error of \<^verbatim>\<open>buildTLSConfigWithECH\<close>, the
  error of \<^verbatim>\<open>dialer.Dial\<close> with its message, and the error value created by the last
  statement of the function ("connection failed, maximum number of retries reached").
\<close>

datatype dial_error =
    AddrError string
  | ECHNotLoaded
  | TLSConfigError string
  | DialError string
  | MaxRetriesExceeded

text \<open>
  \<^verbatim>\<open>err.Error()\<close>: the message of an error. The message of \<^verbatim>\<open>getECHList\<close> is the literal
  \<^verbatim>\<open>"ECH "\<close> followed by the UTF-8 bytes of U+914D U+7F6E U+672A U+52A0 U+8F7D, the message of
  the last statement is the UTF-8 bytes of its literal; the other errors carry their
  message.
\<close>

fun Error :: "dial_error \<Rightarrow> string" where
  "Error (AddrError msg) = msg"
| "Error ECHNotLoaded =
     ''ECH '' @ [CHR 0xE9, CHR 0x85, CHR 0x8D, CHR 0xE7, CHR 0xBD, CHR 0xAE, CHR 0xE6, CHR 0x9C,
                 CHR 0xAA, CHR 0xE5, CHR 0x8A, CHR 0xA0, CHR 0xE8, CHR 0xBD, CHR 0xBD]"
| "Error (TLSConfigError msg) = msg"
| "Error (DialError msg) = msg"
| "Error MaxRetriesExceeded =
     [CHR 0xE8, CHR 0xBF, CHR 0x9E, CHR 0xE6, CHR 0x8E, CHR 0xA5, CHR 0xE5, CHR 0xA4, CHR 0xB1,
      CHR 0xE8, CHR 0xB4, CHR 0xA5, CHR 0xEF, CHR 0xBC, CHR 0x8C, CHR 0xE5, CHR 0xB7, CHR 0xB2,
      CHR 0xE8, CHR 0xBE, CHR 0xBE, CHR 0xE6, CHR 0x9C, CHR 0x80, CHR 0xE5, CHR 0xA4, CHR 0xA7,
      CHR 0xE9, CHR 0x87, CHR 0x8D, CHR 0xE8, CHR 0xAF, CHR 0x95, CHR 0xE6, CHR 0xAC, CHR 0xA1,
      CHR 0xE6, CHR 0x95, CHR 0xB0]"

datatype dial_event = EvRefresh | EvSleep nat | EvDial "byte list"

text \<open>
  The client together with what lies outside the function: the result of
  \<^verbatim>\<open>parseServerAddr(c.serverAddr)\<close> (it rests on \<^verbatim>\<open>net.SplitHostPort\<close>), whether loading
  the system roots fails, the outcome of the k-th \<^verbatim>\<open>refreshECH\<close> (the new list, or
  \<^term>\<open>None\<close> when \<^verbatim>\<open>prepareECH\<close> fails and leaves the store as it is) and the outcome of
  the k-th \<^verbatim>\<open>dialer.Dial\<close> (a connection, or the message of its error).
\<close>

record dial_world =
  pc :: ProxyClient
  addrParse :: "string + (string \<times> string \<times> string)"
  certPoolError :: "string option"
  refreshResults :: "nat \<Rightarrow> byte list option"
  refreshCount :: nat
  dialResults :: "nat \<Rightarrow> string + ws_conn"
  dialCount :: nat
  events :: "dial_event list"

text \<open>\<^verbatim>\<open>func (c *ProxyClient) getECHList() ([]byte, error)\<close>.\<close>

definition getECHList :: "ProxyClient \<Rightarrow> dial_error + byte list" where
  "getECHList c = (if length (echList c) = 0 then Inl ECHNotLoaded else Inr (echList c))"

text \<open>\<^verbatim>\<open>func (c *ProxyClient) refreshECH() error\<close>; the loop ignores the error it returns.\<close>

definition refreshECH :: "dial_world \<Rightarrow> dial_world" where
  "refreshECH w =
     w\<lparr>pc := (case refreshResults w (refreshCount w) of
                  None \<Rightarrow> pc w
                | Some raw \<Rightarrow> (pc w)\<lparr>echList := raw\<rparr>),
       refreshCount := refreshCount w + 1,
       events := events w @ [EvRefresh]\<rparr>"

definition sleep :: "nat \<Rightarrow> dial_world \<Rightarrow> dial_world" where
  "sleep secs w = w\<lparr>events := events w @ [EvSleep secs]\<rparr>"

text \<open>\<^verbatim>\<open>dialer.Dial(wsURL, nil)\<close> with the TLS configuration built from \<open>ech\<close>.\<close>

definition dial :: "byte list \<Rightarrow> dial_world \<Rightarrow> (string + ws_conn) \<times> dial_world" where
  "dial ech w =
     (dialResults w (dialCount w),
      w\<lparr>dialCount := dialCount w + 1, events := events w @ [EvDial ech]\<rparr>)"

text \<open>The \<^verbatim>\<open>for attempt := 1; attempt <= maxRetries; attempt++\<close> loop, from \<open>attempt\<close> on.\<close>

function dialLoop :: "int \<Rightarrow> int \<Rightarrow> dial_world \<Rightarrow> (dial_error + ws_conn) \<times> dial_world" where
  "dialLoop maxRetries attempt w =
     (if attempt \<le> maxRetries then
        (case getECHList (pc w) of
           Inl echErr \<Rightarrow>
             (if attempt < maxRetries then dialLoop maxRetries (attempt + 1) (refreshECH w)
              else (Inl echErr, w))
         | Inr echBytes \<Rightarrow>
             (case certPoolError w of
                Some tlsErr \<Rightarrow> (Inl (TLSConfigError tlsErr), w)
              | None \<Rightarrow>
                  (case dial echBytes w of
                     (Inl dialErr, w') \<Rightarrow>
                       (if Contains dialErr ''ECH'' \<and> attempt < maxRetries
                        then dialLoop maxRetries (attempt + 1) (sleep 1 (refreshECH w'))
                        else (Inl (DialError dialErr), w'))
                   | (Inr wsConn, w') \<Rightarrow> (Inr wsConn, w'))))
      else (Inl MaxRetriesExceeded, w))"
  by pat_completeness auto
termination
  by (relation "measure (\<lambda>(maxRetries, attempt, w). nat (maxRetries + 1 - attempt))") auto

declare dialLoop.simps [simp del]

text \<open>\<^verbatim>\<open>func (c *ProxyClient) dialWebSocketWithECH(maxRetries int) (*websocket.Conn, error)\<close>.\<close>

definition dialWebSocketWithECH :: "int \<Rightarrow> dial_world \<Rightarrow> (dial_error + ws_conn) \<times> dial_world" where
  "dialWebSocketWithECH maxRetries w =
     (case addrParse w of
        Inl err \<Rightarrow> (Inl (AddrError err), w)
      | Inr _ \<Rightarrow> dialLoop maxRetries 1 w)"

text \<open>
  Concrete worlds for evaluating the loop: every refresh succeeds with a new list; the
  gateway rejects ECH on the first dial only, on every dial, or never; the store is
  loaded (\<open>example_world\<close>) or empty (\<open>unloaded_world\<close>) at the start.
\<close>

definition always_accept :: "nat \<Rightarrow> string + ws_conn" where
  "always_accept k = Inr 7"

definition reject_then_accept :: "nat \<Rightarrow> string + ws_conn" where
  "reject_then_accept k = (if k = 0 then Inl ''tls: ECH rejected'' else Inr 7)"

definition always_reject :: "nat \<Rightarrow> string + ws_conn" where
  "always_reject k = Inl ''tls: ECH rejected''"

definition refresh_ok :: "nat \<Rightarrow> byte list option" where
  "refresh_ok k = Some [2]"

definition example_world :: "(nat \<Rightarrow> string + ws_conn) \<Rightarrow> dial_world" where
  "example_world dials =
     \<lparr>pc = \<lparr>serverAddr = ''gw.example:443'', serverIP = [], token = [],
            dnsServer = ''dns.alidns.com/dns-query'', echDomain = ''cloudflare-ech.com'',
            echList = [1], listener = True, running = True\<rparr>,
      addrParse = Inr (''gw.example'', ''443'', ''/''), certPoolError = None,
      refreshResults = refresh_ok, refreshCount = 0,
      dialResults = dials, dialCount = 0, events = []\<rparr>"

definition unloaded_world :: "(nat \<Rightarrow> string + ws_conn) \<Rightarrow> dial_world" where
  "unloaded_world dials =
     \<lparr>pc = \<lparr>serverAddr = ''gw.example:443'', serverIP = [], token = [],
            dnsServer = ''dns.alidns.com/dns-query'', echDomain = ''cloudflare-ech.com'',
            echList = [], listener = True, running = True\<rparr>,
      addrParse = Inr (''gw.example'', ''443'', ''/''), certPoolError = None,
      refreshResults = refresh_ok, refreshCount = 0,
      dialResults = dials, dialCount = 0, events = []\<rparr>"

section \<open>DNS wire format: \<^verbatim>\<open>buildDNSQuery\<close>, \<^verbatim>\<open>parseDNSResponse\<close>, \<^verbatim>\<open>parseHTTPSRecord\<close>\<close>

subsection \<open>Checked access to slices\<close>

text \<open>\<^verbatim>\<open>s[i]\<close>: panics unless \<open>i < len(s)\<close>.\<close>

definition index :: "byte list \<Rightarrow> nat \<Rightarrow> byte option" where
  "index s i = (if i < length s then Some (s ! i) else None)"

text \<open>
  \<^verbatim>\<open>s[lo:hi]\<close>. Go panics unless \<open>lo \<le> hi \<le> cap(s)\<close>; the model is stricter and
  fails already beyond \<open>len(s)\<close>, so it fails wherever Go panics and wherever a slice
  would reach past the bytes of the input.
\<close>

definition subslice :: "byte list \<Rightarrow> nat \<Rightarrow> nat \<Rightarrow> byte list option" where
  "subslice s lo hi =
     (if lo \<le> hi \<and> hi \<le> length s then Some (take (hi - lo) (drop lo s)) else None)"

text \<open>\<^verbatim>\<open>binary.BigEndian.Uint16(b)\<close>: \<^verbatim>\<open>_ = b[1]; return uint16(b[1]) | uint16(b[0])<<8\<close>.\<close>

definition Uint16 :: "byte list \<Rightarrow> 16 word option" where
  "Uint16 b = do { b1 \<leftarrow> index b 1; b0 \<leftarrow> index b 0;
                   Some (ucast b1 OR push_bit 8 (ucast b0)) }"

definition typeHTTPS :: "16 word" where
  "typeHTTPS = 65"

subsection \<open>Strings\<close>

text \<open>\<^verbatim>\<open>strings.Index(s, sep)\<close> for a one-byte separator: the first position, or \<open>-1\<close>.\<close>

fun Index :: "string \<Rightarrow> char \<Rightarrow> int" where
  "Index [] sep = - 1"
| "Index (c # s) sep =
     (if c = sep then 0 else (let i = Index s sep in if i < 0 then - 1 else i + 1))"

lemma Index_bound: "Index s sep < int (length s)"
  by (induction s) (auto simp: Let_def)

text \<open>
  \<^verbatim>\<open>strings.Split(s, sep)\<close> for a one-byte separator: cut at each occurrence, the rest
  of the string is the last field (so the empty string gives one empty field).
\<close>

function Split :: "string \<Rightarrow> char \<Rightarrow> string list" where
  "Split s sep =
     (let m = Index s sep
      in if m < 0 then [s] else take (nat m) s # Split (drop (nat m + 1) s) sep)"
  by pat_completeness auto
termination
proof (relation "measure (\<lambda>(s, sep). length s)")
  show "wf (measure (\<lambda>(s, sep). length s))"
    by simp
next
  fix s :: string and sep :: char and x :: int
  assume "x = Index s sep" "\<not> x < 0"
  with Index_bound [of s sep] have "s \<noteq> []"
    by auto
  then show "((drop (nat x + 1) s, sep), (s, sep)) \<in> measure (\<lambda>(s, sep). length s)"
    by simp
qed

declare Split.simps [simp del]

subsection \<open>Base64 (\<^verbatim>\<open>base64.StdEncoding\<close>)\<close>

definition encodeStd :: string where
  "encodeStd = ''ABCDEFGHIJKLMNOPQRSTUVWXYZabcdefghijklmnopqrstuvwxyz0123456789+/''"

text \<open>\<^verbatim>\<open>enc.encode[x & 0x3F]\<close>.\<close>

definition encode :: "nat \<Rightarrow> char" where
  "encode x = encodeStd ! (x mod 64)"

text \<open>
  \<^verbatim>\<open>EncodeToString\<close>: each group of three bytes is the 24-bit value
  \<^verbatim>\<open>val = src[0]<<16 | src[1]<<8 | src[2]\<close>, written as the four characters
  \<^verbatim>\<open>encode[val>>18 & 0x3F]\<close>, \<^verbatim>\<open>encode[val>>12 & 0x3F]\<close>, \<^verbatim>\<open>encode[val>>6 & 0x3F]\<close>,
  \<^verbatim>\<open>encode[val & 0x3F]\<close>; a last group of one or two bytes is padded with \<open>=\<close>.
\<close>

fun EncodeToString :: "byte list \<Rightarrow> string" where
  "EncodeToString [] = []"
| "EncodeToString [a] =
     (let val = unat a * 65536
      in [encode (val div 262144), encode (val div 4096), CHR ''='', CHR ''=''])"
| "EncodeToString [a, b] =
     (let val = unat a * 65536 + unat b * 256
      in [encode (val div 262144), encode (val div 4096), encode (val div 64), CHR ''=''])"
| "EncodeToString (a # b # c # src) =
     (let val = unat a * 65536 + unat b * 256 + unat c
      in [encode (val div 262144), encode (val div 4096), encode (val div 64), encode val])
     @ EncodeToString src"

text \<open>The decode map: the position of a character in the alphabet.\<close>

fun decodeMap :: "string \<Rightarrow> char \<Rightarrow> nat option" where
  "decodeMap [] c = None"
| "decodeMap (x # alphabet) c =
     (if x = c then Some 0 else map_option Suc (decodeMap alphabet c))"

text \<open>
  \<^verbatim>\<open>DecodeString\<close> on input without line breaks (the encoder writes none): groups of
  four characters of the alphabet, the last one possibly padded with one or two \<open>=\<close>;
  anything else is a \<^verbatim>\<open>CorruptInputError\<close>, here \<^term>\<open>None\<close>.
\<close>

fun DecodeString :: "string \<Rightarrow> byte list option" where
  "DecodeString [] = Some []"
| "DecodeString [c0, c1, c2, c3] =
     (if c2 = CHR ''='' \<and> c3 = CHR ''='' then
        do { n0 \<leftarrow> decodeMap encodeStd c0; n1 \<leftarrow> decodeMap encodeStd c1;
             Some [of_nat ((n0 * 262144 + n1 * 4096) div 65536)] }
      else if c3 = CHR ''='' then
        do { n0 \<leftarrow> decodeMap encodeStd c0; n1 \<leftarrow> decodeMap encodeStd c1;
             n2 \<leftarrow> decodeMap encodeStd c2;
             Some [of_nat ((n0 * 262144 + n1 * 4096 + n2 * 64) div 65536),
                   of_nat ((n0 * 262144 + n1 * 4096 + n2 * 64) div 256)] }
      else
        do { n0 \<leftarrow> decodeMap encodeStd c0; n1 \<leftarrow> decodeMap encodeStd c1;
             n2 \<leftarrow> decodeMap encodeStd c2; n3 \<leftarrow> decodeMap encodeStd c3;
             Some [of_nat ((n0 * 262144 + n1 * 4096 + n2 * 64 + n3) div 65536),
                   of_nat ((n0 * 262144 + n1 * 4096 + n2 * 64 + n3) div 256),
                   of_nat (n0 * 262144 + n1 * 4096 + n2 * 64 + n3)] })"
| "DecodeString (c0 # c1 # c2 # c3 # s) =
     do { n0 \<leftarrow> decodeMap encodeStd c0; n1 \<leftarrow> decodeMap encodeStd c1;
          n2 \<leftarrow> decodeMap encodeStd c2; n3 \<leftarrow> decodeMap encodeStd c3;
          rest \<leftarrow> DecodeString s;
          Some ([of_nat ((n0 * 262144 + n1 * 4096 + n2 * 64 + n3) div 65536),
                 of_nat ((n0 * 262144 + n1 * 4096 + n2 * 64 + n3) div 256),
                 of_nat (n0 * 262144 + n1 * 4096 + n2 * 64 + n3)] @ rest) }"
| "DecodeString _ = None"

subsection \<open>The query\<close>

text \<open>The \<^verbatim>\<open>for _, label := range strings.Split(domain, ".")\<close> loop of \<^verbatim>\<open>buildDNSQuery\<close>;
  \<^verbatim>\<open>byte(len(label))\<close> keeps the low eight bits of the length.\<close>

fun appendLabels :: "byte list \<Rightarrow> string list \<Rightarrow> byte list" where
  "appendLabels query [] = query"
| "appendLabels query (label # labels) =
     appendLabels (query @ [of_nat (length label)] @ map of_char label) labels"

text \<open>\<^verbatim>\<open>func buildDNSQuery(domain string, qtype uint16) []byte\<close>.\<close>

definition buildDNSQuery :: "string \<Rightarrow> 16 word \<Rightarrow> byte list" where
  "buildDNSQuery domain qtype =
     appendLabels [0x00, 0x01, 0x01, 0x00, 0x00, 0x01, 0x00, 0x00, 0x00, 0x00, 0x00, 0x00]
       (Split domain (CHR ''.''))
     @ [0x00, ucast (drop_bit 8 qtype), ucast qtype, 0x00, 0x01]"

subsection \<open>The parser\<close>

text \<open>
  The label walk \<^verbatim>\<open>for offset < len(s) && s[offset] != 0 { offset += int(s[offset]) + 1 }\<close>,
  which the source writes three times (question name, owner name, TargetName). It
  returns the offset at which the loop stops.
\<close>

function skipLabels :: "byte list \<Rightarrow> nat \<Rightarrow> nat option" where
  "skipLabels s offset =
     (if offset < length s then
        do { b \<leftarrow> index s offset;
             if b \<noteq> 0 then skipLabels s (offset + unat b + 1) else Some offset }
      else Some offset)"
  by pat_completeness auto
termination
  by (relation "measure (\<lambda>(s, offset). length s - offset)") auto

declare skipLabels.simps [simp del]

text \<open>The \<^verbatim>\<open>for offset+4 <= len(data)\<close> loop of \<^verbatim>\<open>parseHTTPSRecord\<close> over the SvcParams.\<close>

function svcParams :: "byte list \<Rightarrow> nat \<Rightarrow> string option" where
  "svcParams data offset =
     (if offset + 4 \<le> length data then
        do { key \<leftarrow> subslice data offset (offset + 2) \<bind> Uint16;
             len \<leftarrow> subslice data (offset + 2) (offset + 4) \<bind> Uint16;
             if offset + 4 + unat len > length data then Some []
             else do { value \<leftarrow> subslice data (offset + 4) (offset + 4 + unat len);
                       if key = 5 then Some (EncodeToString value)
                       else svcParams data (offset + 4 + unat len) } }
      else Some [])"
  by pat_completeness auto
termination
  by (relation "measure (\<lambda>(data, offset). length data - offset)") auto

declare svcParams.simps [simp del]

text \<open>\<^verbatim>\<open>func parseHTTPSRecord(data []byte) string\<close>.\<close>

definition parseHTTPSRecord :: "byte list \<Rightarrow> string option" where
  "parseHTTPSRecord data =
     (if length data < 2 then Some []
      else do {
        root \<leftarrow> (if 2 < length data then do { b \<leftarrow> index data 2; Some (b = 0) }
                 else Some False);
        offset \<leftarrow> (if root then Some (2 + 1)
                   else do { offset \<leftarrow> skipLabels data 2; Some (offset + 1) });
        svcParams data offset })"

datatype dns_error = ResponseTooShort | NoAnswerRecords

text \<open>
  The \<^verbatim>\<open>for i := 0; i < int(ancount); i++\<close> loop of \<^verbatim>\<open>parseDNSResponse\<close>; a \<^verbatim>\<open>break\<close>
  leaves it for the final \<^verbatim>\<open>return "", nil\<close>.
\<close>

function answers :: "byte list \<Rightarrow> nat \<Rightarrow> nat \<Rightarrow> nat \<Rightarrow> (string \<times> dns_error option) option" where
  "answers response ancount i offset =
     (if i < ancount then
        (if offset \<ge> length response then Some ([], None)
         else do {
           b \<leftarrow> index response offset;
           offset \<leftarrow> (if b AND 0xC0 = 0xC0 then Some (offset + 2)
                      else do { offset \<leftarrow> skipLabels response offset; Some (offset + 1) });
           if offset + 10 > length response then Some ([], None)
           else do {
             rrType \<leftarrow> subslice response offset (offset + 2) \<bind> Uint16;
             dataLen \<leftarrow> subslice response (offset + 8) (offset + 8 + 2) \<bind> Uint16;
             if offset + 10 + unat dataLen > length response then Some ([], None)
             else do {
               data \<leftarrow> subslice response (offset + 10) (offset + 10 + unat dataLen);
               ech \<leftarrow> (if rrType = typeHTTPS then parseHTTPSRecord data else Some []);
               if ech \<noteq> [] then Some (ech, None)
               else answers response ancount (i + 1) (offset + 10 + unat dataLen) } } })
      else Some ([], None))"
  by pat_completeness auto
termination
  by (relation "measure (\<lambda>(response, ancount, i, offset). ancount - i)") auto

declare answers.simps [simp del]

text \<open>
  \<^verbatim>\<open>func parseDNSResponse(response []byte) (string, error)\<close>: the pair returned, the
  error being \<^term>\<open>None\<close> for \<^verbatim>\<open>nil\<close>.
\<close>

definition parseDNSResponse :: "byte list \<Rightarrow> (string \<times> dns_error option) option" where
  "parseDNSResponse response =
     (if length response < 12 then Some ([], Some ResponseTooShort)
      else do {
        ancount \<leftarrow> subslice response 6 8 \<bind> Uint16;
        if ancount = 0 then Some ([], Some NoAnswerRecords)
        else do {
          offset \<leftarrow> skipLabels response 12;
          answers response (unat ancount) 0 (offset + 5) } })"

subsection \<open>Well-formed answers, for stating what the parser does on them\<close>

text \<open>A 16-bit and a 32-bit field in network byte order.\<close>

definition be16 :: "16 word \<Rightarrow> byte list" where
  "be16 w = [ucast (drop_bit 8 w), ucast w]"

definition be32 :: "32 word \<Rightarrow> byte list" where
  "be32 w = [ucast (drop_bit 24 w), ucast (drop_bit 16 w), ucast (drop_bit 8 w), ucast w]"

text \<open>An uncompressed name: the labels, each behind its length byte, and the zero byte.\<close>

definition encodeName :: "string list \<Rightarrow> byte list" where
  "encodeName labels = appendLabels [] labels @ [0]"

text \<open>The owner name of a record: a two-byte compression pointer (top two bits set) or an
  uncompressed name.\<close>

datatype dns_name = Compressed byte byte | Labels "string list"

fun encodeOwner :: "dns_name \<Rightarrow> byte list" where
  "encodeOwner (Compressed p0 p1) = [p0 OR 0xC0, p1]"
| "encodeOwner (Labels labels) = encodeName labels"

text \<open>Labels that a length byte can describe: not empty, shorter than \<open>bound\<close>.\<close>

definition labels_ok :: "nat \<Rightarrow> string list \<Rightarrow> bool" where
  "labels_ok bound labels = list_all (\<lambda>l. l \<noteq> [] \<and> length l < bound) labels"

fun owner_ok :: "dns_name \<Rightarrow> bool" where
  "owner_ok (Compressed p0 p1) = True"
| "owner_ok (Labels labels) = labels_ok 64 labels"

text \<open>SvcParams other than \<open>ech\<close> (key 5) whose values fit the 16-bit length field.\<close>

definition params_ok :: "(16 word \<times> byte list) list \<Rightarrow> bool" where
  "params_ok ps = list_all (\<lambda>(key, val). key \<noteq> 5 \<and> length val < 65536) ps"

text \<open>One SvcParam \<^verbatim>\<open>{key:u16, len:u16, value[len]}\<close>, and a list of them.\<close>

definition svcParam :: "16 word \<Rightarrow> byte list \<Rightarrow> byte list" where
  "svcParam key val = be16 key @ be16 (of_nat (length val)) @ val"

fun svcParamList :: "(16 word \<times> byte list) list \<Rightarrow> byte list" where
  "svcParamList [] = []"
| "svcParamList ((key, val) # ps) = svcParam key val @ svcParamList ps"

text \<open>
  The RDATA of an HTTPS record: SvcPriority, the uncompressed TargetName, SvcParams
  with other keys, the \<open>ech\<close> parameter (key 5) with value \<open>e\<close>, and whatever follows.
\<close>

definition httpsRData ::
  "16 word \<Rightarrow> string list \<Rightarrow> (16 word \<times> byte list) list \<Rightarrow> byte list \<Rightarrow> byte list \<Rightarrow> byte list" where
  "httpsRData priority target others e after =
     be16 priority @ encodeName target @ svcParamList others @ svcParam 5 e @ after"

text \<open>
  An answer record: owner name, TYPE, CLASS, TTL and RDATA; on the wire the RDATA follows
  its length (RDLENGTH).
\<close>

record answer_rr =
  rr_owner :: dns_name
  rr_type :: "16 word"
  rr_class :: "16 word"
  rr_ttl :: "32 word"
  rr_rdata :: "byte list"

definition encodeRR :: "answer_rr \<Rightarrow> byte list" where
  "encodeRR r =
     encodeOwner (rr_owner r) @ be16 (rr_type r) @ be16 (rr_class r) @ be32 (rr_ttl r) @
     be16 (of_nat (length (rr_rdata r))) @ rr_rdata r"

fun encodeRRs :: "answer_rr list \<Rightarrow> byte list" where
  "encodeRRs [] = []"
| "encodeRRs (r # rs) = encodeRR r @ encodeRRs rs"

text \<open>A record whose owner name and RDATA fit their length fields.\<close>

definition rr_ok :: "answer_rr \<Rightarrow> bool" where
  "rr_ok r = (owner_ok (rr_owner r) \<and> length (rr_rdata r) < 65536)"

text \<open>Such a record of a type other than HTTPS.\<close>

definition other_rr_ok :: "answer_rr \<Rightarrow> bool" where
  "other_rr_ok r = (rr_ok r \<and> rr_type r \<noteq> typeHTTPS)"

text \<open>The HTTPS record with the RDATA \<^const>\<open>httpsRData\<close>.\<close>

definition httpsRR ::
  "dns_name \<Rightarrow> 16 word \<Rightarrow> 32 word \<Rightarrow> 16 word \<Rightarrow> string list \<Rightarrow> (16 word \<times> byte list) list
     \<Rightarrow> byte list \<Rightarrow> byte list \<Rightarrow> answer_rr" where
  "httpsRR owner rrClass ttl priority target others e after =
     \<lparr>rr_owner = owner, rr_type = typeHTTPS, rr_class = rrClass, rr_ttl = ttl,
      rr_rdata = httpsRData priority target others e after\<rparr>"

text \<open>
  A response message: the header with QDCOUNT 1 and the three other counts, the question
  section as \<^verbatim>\<open>buildDNSQuery\<close> wrote it, the records \<open>rs\<close>, and the bytes \<open>trailer\<close> after
  them (the authority and additional sections).
\<close>

definition dnsMessage ::
  "16 word \<Rightarrow> 16 word \<Rightarrow> 16 word \<Rightarrow> 16 word \<Rightarrow> 16 word \<Rightarrow> string \<Rightarrow> answer_rr list \<Rightarrow> byte list
     \<Rightarrow> byte list" where
  "dnsMessage ident flags ancount nscount arcount domain rs trailer =
     be16 ident @ be16 flags @ be16 1 @ be16 ancount @ be16 nscount @ be16 arcount @
     drop 12 (buildDNSQuery domain typeHTTPS) @ encodeRRs rs @ trailer"

text \<open>
  What a list of records holds for the caller: the result of \<^verbatim>\<open>parseHTTPSRecord\<close> on the
  first HTTPS record where that result is not empty, the empty string when there is none.
\<close>

fun firstECH :: "answer_rr list \<Rightarrow> string" where
  "firstECH [] = []"
| "firstECH (r # rs) =
     (if rr_type r = typeHTTPS
      then (case parseHTTPSRecord (rr_rdata r) of
              Some ech \<Rightarrow> if ech \<noteq> [] then ech else firstECH rs
            | None \<Rightarrow> firstECH rs)
      else firstECH rs)"

text \<open>The records, from the first on, that lie entirely within \<open>n\<close> bytes.\<close>

fun completeRecords :: "nat \<Rightarrow> answer_rr list \<Rightarrow> answer_rr list" where
  "completeRecords n [] = []"
| "completeRecords n (r # rs) =
     (if length (encodeRR r) \<le> n then r # completeRecords (n - length (encodeRR r)) rs else [])"

text \<open>Two records of other types: a CNAME whose RDATA is a compressed name, and an A
  record with an uncompressed owner name.\<close>

definition cname_rr :: answer_rr where
  "cname_rr = \<lparr>rr_owner = Compressed 0 12, rr_type = 5, rr_class = 1, rr_ttl = 60,
               rr_rdata = [1, 0x78, 0xC0, 0x0C]\<rparr>"

definition a_rr :: answer_rr where
  "a_rr = \<lparr>rr_owner = Labels [''x'', ''a'', ''b''], rr_type = 1, rr_class = 1, rr_ttl = 60,
           rr_rdata = [192, 0, 2, 1]\<rparr>"


section \<open>HTTP proxy requests: \<^verbatim>\<open>handleHTTP\<close>\<close>

text \<open>The two bytes \<^verbatim>\<open>"\r\n"\<close>.\<close>

definition CRLF :: string where
  "CRLF = [CHR 0x0D, CHR 0x0A]"

subsection \<open>The standard library\<close>

text \<open>
  Four functions of the Go standard library that \<^verbatim>\<open>handleHTTP\<close> calls decode their
  argument as UTF-8 and consult the Unicode tables: \<^verbatim>\<open>strings.ToLower\<close>,
  \<^verbatim>\<open>strings.TrimSpace\<close>, \<^verbatim>\<open>strings.Fields\<close> and \<^verbatim>\<open>fmt.Sscanf\<close> with the format \<^verbatim>\<open>"%d"\<close>
  (\<open>Some N\<close> when the scan stores the integer \<open>N\<close> in its argument, \<^term>\<open>None\<close> when
  it fails and stores nothing). Their code is not part of the repository; the handler
  takes them as the parameter \<open>lib\<close>, and what is proved of it for every \<open>lib\<close> holds
  for the library's own functions, on every byte string.
\<close>

record stdlib =
  ToLower :: "string \<Rightarrow> string"
  TrimSpace :: "string \<Rightarrow> string"
  Fields :: "string \<Rightarrow> string list"
  Sscanf_d :: "string \<Rightarrow> int option"

text \<open>
  The functions that work on bytes: \<^verbatim>\<open>strings.TrimRight(s, cutset)\<close> with an ASCII
  cutset and \<^verbatim>\<open>strings.TrimPrefix(s, prefix)\<close>.
\<close>

definition TrimRight :: "string \<Rightarrow> string \<Rightarrow> string" where
  "TrimRight s cutset = rev (dropWhile (\<lambda>c. c \<in> set cutset) (rev s))"

definition TrimPrefix :: "string \<Rightarrow> string \<Rightarrow> string" where
  "TrimPrefix s pre = (if HasPrefix s pre then drop (length pre) s else s)"

text \<open>
  \<^verbatim>\<open>(*bufio.Reader).ReadString(delim)\<close> on a reader that holds the bytes \<open>reader\<close> and
  then fails (EOF or the 30-second deadline): the bytes up to and including the first
  delimiter and the reader after them, or \<^term>\<open>None\<close> for the error when there is no
  delimiter.
\<close>

definition ReadString :: "string \<Rightarrow> char \<Rightarrow> (string \<times> string) option" where
  "ReadString reader delim =
     (let m = Index reader delim
      in if m < 0 then None else Some (take (nat m + 1) reader, drop (nat m + 1) reader))"

lemma ReadString_shorter:
  "ReadString reader delim = Some (line, reader') \<Longrightarrow> length reader' < length reader"
  using Index_bound [of reader delim]
  by (auto simp: ReadString_def Let_def split: if_splits)

text \<open>\<^verbatim>\<open>io.ReadFull(reader, body)\<close> with \<open>len(body) = n\<close>: exactly \<open>n\<close> bytes, or an error.\<close>

definition ReadFull :: "string \<Rightarrow> nat \<Rightarrow> (string \<times> string) option" where
  "ReadFull reader n =
     (if n \<le> length reader then Some (take n reader, drop n reader) else None)"

text \<open>\<^verbatim>\<open>string(firstByte)\<close>: the UTF-8 encoding of the code point \<open>firstByte\<close>.\<close>

definition byteString :: "char \<Rightarrow> string" where
  "byteString b =
     (if (of_char b :: nat) < 128 then [b]
      else [char_of (192 + (of_char b :: nat) div 64), char_of (128 + (of_char b :: nat) mod 64)])"

text \<open>\<^verbatim>\<open>headers[k]\<close> on a \<^verbatim>\<open>map[string]string\<close>: the empty string for a missing key.\<close>

definition lookup :: "(string \<rightharpoonup> string) \<Rightarrow> string \<Rightarrow> string" where
  "lookup m k = (case m k of None \<Rightarrow> [] | Some v \<Rightarrow> v)"

subsection \<open>The handler\<close>

text \<open>The header loop of \<^verbatim>\<open>handleHTTP\<close>: \<^term>\<open>None\<close> when a read fails before the blank line.\<close>

function readHeaders ::
  "stdlib \<Rightarrow> string \<Rightarrow> (string \<rightharpoonup> string) \<Rightarrow> string list
     \<Rightarrow> ((string \<rightharpoonup> string) \<times> string list \<times> string) option" where
  "readHeaders lib reader headers headerLines =
     (case ReadString reader (CHR 0x0A) of
        None \<Rightarrow> None
      | Some (line, reader') \<Rightarrow>
          (let line = TrimRight line CRLF
           in if line = [] then Some (headers, headerLines, reader')
              else readHeaders lib reader'
                     (let idx = Index line (CHR '':'')
                      in if idx > 0
                         then (let key = TrimSpace lib (take (nat idx) line);
                                   val = TrimSpace lib (drop (nat idx + 1) line)
                               in headers(ToLower lib key \<mapsto> val))
                         else headers)
                     (headerLines @ [line])))"
  by pat_completeness auto
termination
  by (relation "measure (\<lambda>(lib, reader, headers, headerLines). length reader)")
     (auto dest: ReadString_shorter)

declare readHeaders.simps [simp del]

text \<open>\<^verbatim>\<open>strings.Split\<close> returns at least one field, so \<^verbatim>\<open>strings.Split(line, ":")[0]\<close> is in range.\<close>

lemma Split_not_Nil: "Split s sep \<noteq> []"
  by (subst Split.simps) (simp add: Let_def)

text \<open>The \<^verbatim>\<open>for _, line := range headerLines\<close> loop that writes the retained header lines.\<close>

fun writeHeaders :: "stdlib \<Rightarrow> string \<Rightarrow> string list \<Rightarrow> string" where
  "writeHeaders lib requestBuilder [] = requestBuilder"
| "writeHeaders lib requestBuilder (line # headerLines) =
     (let key = Split line (CHR '':'') ! 0;
          keyLower = ToLower lib (TrimSpace lib key)
      in if keyLower \<noteq> ''proxy-connection'' \<and> keyLower \<noteq> ''proxy-authorization''
         then writeHeaders lib (requestBuilder @ line @ CRLF) headerLines
         else writeHeaders lib requestBuilder headerLines)"

text \<open>
  The body that the \<^verbatim>\<open>Content-Length\<close> block of \<^verbatim>\<open>handleHTTP\<close> appends to the builder;
  \<^verbatim>\<open>length\<close> is 0 unless the scan stores a value in it.
\<close>

definition readBody :: "stdlib \<Rightarrow> (string \<rightharpoonup> string) \<Rightarrow> string \<Rightarrow> string" where
  "readBody lib headers reader =
     (let contentLength = lookup headers ''content-length''
      in if contentLength \<noteq> [] then
           (let length = (case Sscanf_d lib contentLength of Some scanned \<Rightarrow> scanned | None \<Rightarrow> 0)
            in if length > 0 \<and> length < 10 * 1024 * 1024 then
                 (case ReadFull reader (nat length) of
                    Some (body, _) \<Rightarrow> body
                  | None \<Rightarrow> [])
               else [])
         else [])"

text \<open>The string built in \<^verbatim>\<open>requestBuilder\<close>: request line, header lines, blank line, body.\<close>

definition firstFrame ::
  "stdlib \<Rightarrow> string \<Rightarrow> string \<Rightarrow> string \<Rightarrow> string list \<Rightarrow> (string \<rightharpoonup> string) \<Rightarrow> string
     \<Rightarrow> string" where
  "firstFrame lib method path httpVersion headerLines headers reader =
     writeHeaders lib (method @ '' '' @ path @ '' '' @ httpVersion @ CRLF) headerLines
     @ CRLF @ readBody lib headers reader"

text \<open>The mode constants.\<close>

definition modeSOCKS5 :: nat where "modeSOCKS5 = 1"
definition modeHTTPConnect :: nat where "modeHTTPConnect = 2"
definition modeHTTPProxy :: nat where "modeHTTPProxy = 3"

text \<open>The methods of the second \<^verbatim>\<open>case\<close> of the \<^verbatim>\<open>switch method\<close>.\<close>

definition forwardMethods :: "string list" where
  "forwardMethods =
     [''GET'', ''POST'', ''PUT'', ''DELETE'', ''HEAD'', ''OPTIONS'', ''PATCH'', ''TRACE'']"

text \<open>
  How \<^verbatim>\<open>handleHTTP\<close> ends: it returns having written nothing, it writes a response and
  returns, or it calls \<^verbatim>\<open>handleTunnel(conn, target, clientAddr, mode, firstFrame)\<close>.
\<close>

datatype http_outcome =
    Closed
  | Respond string
  | Tunnel string nat string

text \<open>\<^verbatim>\<open>func (c *ProxyClient) handleHTTP(conn net.Conn, clientAddr string, firstByte byte)\<close>;
  \<open>conn\<close> is the bytes the client sends after the first one.\<close>

definition handleHTTP :: "stdlib \<Rightarrow> char \<Rightarrow> string \<Rightarrow> http_outcome" where
  "handleHTTP lib firstByte conn =
     (case ReadString (byteString firstByte @ conn) (CHR 0x0A) of
        None \<Rightarrow> Closed
      | Some (requestLine, reader) \<Rightarrow>
          (let parts = Fields lib requestLine
           in if length parts < 3 then Closed
              else
                (let method = parts ! 0; requestURL = parts ! 1; httpVersion = parts ! 2
                 in case readHeaders lib reader Map.empty [] of
                      None \<Rightarrow> Closed
                    | Some (headers, headerLines, reader) \<Rightarrow>
                        if method = ''CONNECT''
                        then Tunnel requestURL modeHTTPConnect []
                        else if method \<in> set forwardMethods
                        then
                          (let (target, path) =
                                 (if HasPrefix requestURL ''http://''
                                  then (let urlWithoutScheme = TrimPrefix requestURL ''http://'';
                                            idx = Index urlWithoutScheme (CHR ''/'')
                                        in if idx > 0
                                           then (take (nat idx) urlWithoutScheme,
                                                 drop (nat idx) urlWithoutScheme)
                                           else (urlWithoutScheme, ''/''))
                                  else (lookup headers ''host'', requestURL))
                           in if target = []
                              then Respond (''HTTP/1.1 400 Bad Request'' @ CRLF @ CRLF)
                              else Tunnel
                                     (if \<not> Contains target '':'' then target @ '':80'' else target)
                                     modeHTTPProxy
                                     (firstFrame lib method path httpVersion headerLines headers reader))
                        else Respond (''HTTP/1.1 405 Method Not Allowed'' @ CRLF @ CRLF))))"

subsection \<open>The header filter, for stating what the header loop writes\<close>

text \<open>
  The key of a header line as the loop takes it: the text before the first colon, or the
  whole line when it has no colon. A line is retained when this key, with the white
  space around it trimmed and then lowercased, is neither \<open>proxy-connection\<close> nor
  \<open>proxy-authorization\<close>.
\<close>

definition rawKey :: "string \<Rightarrow> string" where
  "rawKey line = takeWhile (\<lambda>c. c \<noteq> CHR '':'') line"

definition retained :: "stdlib \<Rightarrow> string \<Rightarrow> bool" where
  "retained lib line =
     (ToLower lib (TrimSpace lib (rawKey line)) \<noteq> ''proxy-connection'' \<and>
      ToLower lib (TrimSpace lib (rawKey line)) \<noteq> ''proxy-authorization'')"

definition sanitized :: "stdlib \<Rightarrow> string list \<Rightarrow> string list" where
  "sanitized lib headerLines = filter (retained lib) headerLines"

subsection \<open>The library on ASCII strings\<close>

text \<open>
  On a string whose bytes are all below \<open>0x80\<close> the four library functions are the
  following: the white space is \<^verbatim>\<open>\t \n \v \f \r\<close> and the space, the letters with a lower
  case are \<open>A\<close> to \<open>Z\<close>. They are used to run the handler on concrete requests, all of
  them ASCII.
\<close>

definition ascii_only :: "string \<Rightarrow> bool" where
  "ascii_only s = list_all (\<lambda>c. (of_char c :: nat) < 128) s"

definition isSpace :: "char \<Rightarrow> bool" where
  "isSpace c = (c \<in> {CHR 0x09, CHR 0x0A, CHR 0x0B, CHR 0x0C, CHR 0x0D, CHR 0x20})"

text \<open>\<^verbatim>\<open>strings.Fields(s)\<close>: the maximal runs of bytes that are not white space, in order;
  \<open>field\<close> is the run being read.\<close>

fun fieldsFrom :: "string \<Rightarrow> string \<Rightarrow> string list" where
  "fieldsFrom field [] = (if field = [] then [] else [field])"
| "fieldsFrom field (c # s) =
     (if isSpace c then (if field = [] then fieldsFrom [] s else field # fieldsFrom [] s)
      else fieldsFrom (field @ [c]) s)"

definition asciiFields :: "string \<Rightarrow> string list" where
  "asciiFields s = fieldsFrom [] s"

text \<open>\<^verbatim>\<open>strings.TrimSpace(s)\<close> and \<^verbatim>\<open>strings.ToLower(s)\<close> (a byte from \<open>A\<close> to \<open>Z\<close> moves up by
  \<^verbatim>\<open>'a' - 'A'\<close>).\<close>

definition asciiTrimSpace :: "string \<Rightarrow> string" where
  "asciiTrimSpace s = rev (dropWhile isSpace (rev (dropWhile isSpace s)))"

definition toLower :: "char \<Rightarrow> char" where
  "toLower c = (if 65 \<le> (of_char c :: nat) \<and> (of_char c :: nat) \<le> 90
                then char_of ((of_char c :: nat) + 32) else c)"

definition asciiToLower :: "string \<Rightarrow> string" where
  "asciiToLower s = map toLower s"

text \<open>
  \<^verbatim>\<open>fmt.Sscanf(input, "%d", &length)\<close>: blanks are skipped (a line feed is an error), one
  sign is accepted, the longest run of decimal digits is the token, whatever follows is
  not looked at. Without a digit, or with a value outside the 64-bit \<^verbatim>\<open>int\<close>, the scan
  fails.
\<close>

definition isDigit :: "char \<Rightarrow> bool" where
  "isDigit c = (48 \<le> (of_char c :: nat) \<and> (of_char c :: nat) \<le> 57)"

fun decimal :: "int \<Rightarrow> string \<Rightarrow> int" where
  "decimal acc [] = acc"
| "decimal acc (c # s) = decimal (acc * 10 + (int (of_char c) - 48)) s"

fun skipSpace :: "string \<Rightarrow> string option" where
  "skipSpace [] = Some []"
| "skipSpace (c # s) =
     (if c = CHR 0x0A then None
      else if c \<in> {CHR 0x09, CHR 0x0B, CHR 0x0C, CHR 0x0D, CHR 0x20} then skipSpace s
      else Some (c # s))"

definition scanToken :: "string \<Rightarrow> string" where
  "scanToken input =
     (case skipSpace input of
        None \<Rightarrow> []
      | Some [] \<Rightarrow> []
      | Some (c # s) \<Rightarrow>
          takeWhile isDigit (if c = CHR ''+'' \<or> c = CHR ''-'' then s else c # s))"

definition asciiSscanf_d :: "string \<Rightarrow> int option" where
  "asciiSscanf_d input =
     (let negative = (case skipSpace input of Some (c # _) \<Rightarrow> c = CHR ''-'' | _ \<Rightarrow> False);
          tok = scanToken input;
          i = (if negative then - decimal 0 tok else decimal 0 tok)
      in if tok = [] then None
         else if i < - (2 ^ 63) \<or> 2 ^ 63 - 1 < i then None
         else Some i)"

definition asciiLib :: stdlib where
  "asciiLib = \<lparr>ToLower = asciiToLower, TrimSpace = asciiTrimSpace, Fields = asciiFields,
               Sscanf_d = asciiSscanf_d\<rparr>"

text \<open>The equations that evaluate \<^verbatim>\<open>handleHTTP\<close> on a concrete request.\<close>

lemmas eval_http = handleHTTP_def ReadString_def byteString_def asciiLib_def asciiFields_def
  isSpace_def readHeaders.simps TrimRight_def asciiTrimSpace_def asciiToLower_def toLower_def
  CRLF_def HasPrefix_def TrimPrefix_def lookup_def firstFrame_def readBody_def
  asciiSscanf_d_def isDigit_def ReadFull_def Split.simps modeHTTPProxy_def modeHTTPConnect_def
  Let_def char_of_def bit_0 ascii_only_def scanToken_def forwardMethods_def rawKey_def
  retained_def sanitized_def

section \<open>Lifecycle properties\<close>

text \<open>
  C9 (as the source has it): \<^verbatim>\<open>GetStatus\<close> returns the Chinese literal for "running"
  (UTF-8 of U+8FD0 U+884C U+4E2D) whenever \<^verbatim>\<open>IsRunning()\<close> is true and the literal for
  "stopped" (UTF-8 of U+5DF2 U+505C U+6B62) whenever it is false.
\<close>

theorem GetStatus_by_IsRunning:
  "(Android_IsRunning a \<longrightarrow> GetStatus a = status_running) \<and>
   (\<not> Android_IsRunning a \<longrightarrow> GetStatus a = status_stopped)"
  by (simp add: GetStatus_def Android_IsRunning_def)

theorem GetStatus_by_IsRunning_witness:
  "Android_IsRunning \<lparr>client = \<lparr>serverAddr = ''a:443'', serverIP = [], token = [],
       dnsServer = [], echDomain = [], echList = [], listener = True, running = True\<rparr>\<rparr> \<and>
   GetStatus \<lparr>client = \<lparr>serverAddr = ''a:443'', serverIP = [], token = [],
       dnsServer = [], echDomain = [], echList = [], listener = True, running = True\<rparr>\<rparr>
     = [CHR 0xE8, CHR 0xBF, CHR 0x90, CHR 0xE8, CHR 0xA1, CHR 0x8C, CHR 0xE4, CHR 0xB8, CHR 0xAD] \<and>
   \<not> Android_IsRunning \<lparr>client = \<lparr>serverAddr = ''a:443'', serverIP = [], token = [],
       dnsServer = [], echDomain = [], echList = [], listener = False, running = False\<rparr>\<rparr> \<and>
   GetStatus \<lparr>client = \<lparr>serverAddr = ''a:443'', serverIP = [], token = [],
       dnsServer = [], echDomain = [], echList = [], listener = False, running = False\<rparr>\<rparr>
     = [CHR 0xE5, CHR 0xB7, CHR 0xB2, CHR 0xE5, CHR 0x81, CHR 0x9C, CHR 0xE6, CHR 0xAD, CHR 0xA2]"
  using GetStatus_by_IsRunning
    [of "\<lparr>client = \<lparr>serverAddr = ''a:443'', serverIP = [], token = [],
       dnsServer = [], echDomain = [], echList = [], listener = True, running = True\<rparr>\<rparr>"]
    GetStatus_by_IsRunning
    [of "\<lparr>client = \<lparr>serverAddr = ''a:443'', serverIP = [], token = [],
       dnsServer = [], echDomain = [], echList = [], listener = False, running = False\<rparr>\<rparr>"]
  by (simp add: Android_IsRunning_def IsRunning_def status_running_def status_stopped_def)

text \<open>
  C9 (as the specification words it) fails: on a running client \<^verbatim>\<open>GetStatus\<close> does not
  return the string "Running".
\<close>

theorem GetStatus_Running_counterexample:
  "Android_IsRunning \<lparr>client = \<lparr>serverAddr = ''a:443'', serverIP = [], token = [],
       dnsServer = [], echDomain = [], echList = [], listener = True, running = True\<rparr>\<rparr> \<and>
   GetStatus \<lparr>client = \<lparr>serverAddr = ''a:443'', serverIP = [], token = [],
       dnsServer = [], echDomain = [], echList = [], listener = True, running = True\<rparr>\<rparr>
     \<noteq> ''Running''"
  by (simp add: GetStatus_def Android_IsRunning_def IsRunning_def status_running_def)

section \<open>Protocol detection properties\<close>

text \<open>
  C1: dispatch is decided by the first byte read. \<open>0x05\<close> hands the connection to
  \<^verbatim>\<open>handleSOCKS5\<close>; a byte among C, G, P, H, D, O, T hands it to \<^verbatim>\<open>handleHTTP\<close>; any
  other first byte only logs and closes the connection: nothing is written back, and
  the run has no event beyond its own deadline, log line and close.
\<close>

theorem handleConnection_dispatch:
  "(b = CHR 0x05 \<longrightarrow>
      handleConnection (b # rest) = [SetDeadline 30, CallSOCKS5 b, ConnClose]) \<and>
   (b \<in> {CHR ''C'', CHR ''G'', CHR ''P'', CHR ''H'', CHR ''D'', CHR ''O'', CHR ''T''} \<longrightarrow>
      handleConnection (b # rest) = [SetDeadline 30, CallHTTP b, ConnClose]) \<and>
   (b \<noteq> CHR 0x05 \<and>
    b \<notin> {CHR ''C'', CHR ''G'', CHR ''P'', CHR ''H'', CHR ''D'', CHR ''O'', CHR ''T''} \<longrightarrow>
      handleConnection (b # rest) = [SetDeadline 30, LogUnknownProtocol b, ConnClose] \<and>
      written (handleConnection (b # rest)) = [])"
  by (auto simp add: handleConnection_def)

theorem handleConnection_dispatch_witness:
  "handleConnection [CHR 0x05, CHR 0x01, CHR 0x00]
     = [SetDeadline 30, CallSOCKS5 (CHR 0x05), ConnClose] \<and>
   handleConnection ''GET / HTTP/1.1''
     = [SetDeadline 30, CallHTTP (CHR ''G''), ConnClose] \<and>
   handleConnection [CHR 0x16, CHR 0x03, CHR 0x01]
     = [SetDeadline 30, LogUnknownProtocol (CHR 0x16), ConnClose] \<and>
   written (handleConnection [CHR 0x16, CHR 0x03, CHR 0x01]) = []"
  using handleConnection_dispatch [of "CHR 0x05" "[CHR 0x01, CHR 0x00]"]
    handleConnection_dispatch [of "CHR ''G''" "''ET / HTTP/1.1''"]
    handleConnection_dispatch [of "CHR 0x16" "[CHR 0x03, CHR 0x01]"]
  by simp

section \<open>Retry policy properties\<close>

lemma dialLoop_dialCount:
  "dialCount (snd (dialLoop m a w)) \<le> dialCount w + nat (m + 1 - a)"
proof (induction m a w rule: dialLoop.induct)
  case (1 m a w)
  have r: "dialCount (refreshECH v) = dialCount v" for v
    by (simp add: refreshECH_def)
  have s: "dialCount (sleep k v) = dialCount v" for k v
    by (simp add: sleep_def)
  show ?case
    using "1.IH"
    apply (subst dialLoop.simps)
    apply (auto simp: r s dial_def split: sum.splits option.splits prod.splits if_splits)
    subgoal premises p for ech msg
      using p(1) [of ech msg "Inl msg"] p(2-) by simp
    done
qed

lemma dialLoop_not_MaxRetries:
  "a \<le> m \<Longrightarrow> fst (dialLoop m a w) \<noteq> Inl MaxRetriesExceeded"
proof (induction m a w rule: dialLoop.induct)
  case (1 m a w)
  show ?case
    using "1.prems" "1.IH"
    apply (subst dialLoop.simps)
    apply (auto simp: getECHList_def split: sum.splits option.splits prod.splits if_splits)
    done
qed

text \<open>
  C4 (as the source has it): \<^verbatim>\<open>dialWebSocketWithECH(maxRetries)\<close> dials at most
  \<open>maxRetries\<close> times. A dial that fails with "ECH" in its message, with attempts
  remaining, refreshes the store, sleeps one second and goes on with the next attempt.
  An attempt that finds the store empty (the message of that error contains "ECH" too),
  with attempts remaining, refreshes the store and goes on with the next attempt at
  once: it neither dials nor sleeps. A successful dial returns its connection. A dial
  that fails without "ECH" in its message, or on the last attempt, returns that dial's
  own error; an empty store on the last attempt returns the error of \<^verbatim>\<open>getECHList\<close>; a
  failure to build the TLS configuration returns its error at once. With a server
  address that parses, the dedicated "maximum number of retries" error is returned
  exactly when \<open>maxRetries \<le> 0\<close>, that is when no attempt is made at all.
\<close>

theorem dialWebSocketWithECH_retry:
  "dialCount (snd (dialWebSocketWithECH maxRetries w)) \<le> dialCount w + nat maxRetries \<and>
   (attempt < maxRetries \<and> getECHList (pc w) = Inr ech \<and> certPoolError w = None \<and>
    dialResults w (dialCount w) = Inl msg \<and> Contains msg ''ECH'' \<longrightarrow>
      dialLoop maxRetries attempt w =
        dialLoop maxRetries (attempt + 1) (sleep 1 (refreshECH (snd (dial ech w))))) \<and>
   (attempt < maxRetries \<and> getECHList (pc w) = Inl echErr \<longrightarrow>
      Contains (Error echErr) ''ECH'' \<and>
      dialLoop maxRetries attempt w = dialLoop maxRetries (attempt + 1) (refreshECH w)) \<and>
   (attempt \<le> maxRetries \<and> getECHList (pc w) = Inr ech \<and> certPoolError w = None \<and>
    dialResults w (dialCount w) = Inr wsConn \<longrightarrow>
      dialLoop maxRetries attempt w = (Inr wsConn, snd (dial ech w))) \<and>
   (attempt \<le> maxRetries \<and> getECHList (pc w) = Inr ech \<and> certPoolError w = None \<and>
    dialResults w (dialCount w) = Inl msg \<and> (\<not> Contains msg ''ECH'' \<or> attempt = maxRetries) \<longrightarrow>
      dialLoop maxRetries attempt w = (Inl (DialError msg), snd (dial ech w))) \<and>
   (attempt = maxRetries \<and> getECHList (pc w) = Inl echErr \<longrightarrow>
      dialLoop maxRetries attempt w = (Inl echErr, w)) \<and>
   (attempt \<le> maxRetries \<and> getECHList (pc w) = Inr ech \<and> certPoolError w = Some tlsErr \<longrightarrow>
      dialLoop maxRetries attempt w = (Inl (TLSConfigError tlsErr), w)) \<and>
   (addrParse w = Inr hpp \<longrightarrow>
      (fst (dialWebSocketWithECH maxRetries w) = Inl MaxRetriesExceeded) = (maxRetries \<le> 0))"
proof (intro conjI impI)
  show "dialCount (snd (dialWebSocketWithECH maxRetries w)) \<le> dialCount w + nat maxRetries"
    using dialLoop_dialCount [of maxRetries 1 w]
    by (simp add: dialWebSocketWithECH_def split: sum.splits)
next
  assume "attempt < maxRetries \<and> getECHList (pc w) = Inr ech \<and> certPoolError w = None \<and>
    dialResults w (dialCount w) = Inl msg \<and> Contains msg ''ECH''"
  then show "dialLoop maxRetries attempt w =
        dialLoop maxRetries (attempt + 1) (sleep 1 (refreshECH (snd (dial ech w))))"
    by (subst dialLoop.simps) (simp add: dial_def)
next
  assume a: "attempt < maxRetries \<and> getECHList (pc w) = Inl echErr"
  then have "echErr = ECHNotLoaded"
    by (auto simp: getECHList_def split: if_splits)
  then show "Contains (Error echErr) ''ECH''"
    by (simp add: HasPrefix_def)
next
  assume "attempt < maxRetries \<and> getECHList (pc w) = Inl echErr"
  then show "dialLoop maxRetries attempt w = dialLoop maxRetries (attempt + 1) (refreshECH w)"
    by (subst dialLoop.simps) simp
next
  assume "attempt \<le> maxRetries \<and> getECHList (pc w) = Inr ech \<and> certPoolError w = None \<and>
    dialResults w (dialCount w) = Inr wsConn"
  then show "dialLoop maxRetries attempt w = (Inr wsConn, snd (dial ech w))"
    by (subst dialLoop.simps) (simp add: dial_def)
next
  assume "attempt \<le> maxRetries \<and> getECHList (pc w) = Inr ech \<and> certPoolError w = None \<and>
    dialResults w (dialCount w) = Inl msg \<and> (\<not> Contains msg ''ECH'' \<or> attempt = maxRetries)"
  then show "dialLoop maxRetries attempt w = (Inl (DialError msg), snd (dial ech w))"
    by (subst dialLoop.simps) (auto simp: dial_def)
next
  assume "attempt = maxRetries \<and> getECHList (pc w) = Inl echErr"
  then show "dialLoop maxRetries attempt w = (Inl echErr, w)"
    by (subst dialLoop.simps) simp
next
  assume "attempt \<le> maxRetries \<and> getECHList (pc w) = Inr ech \<and> certPoolError w = Some tlsErr"
  then show "dialLoop maxRetries attempt w = (Inl (TLSConfigError tlsErr), w)"
    by (subst dialLoop.simps) simp
next
  assume a: "addrParse w = Inr hpp"
  show "(fst (dialWebSocketWithECH maxRetries w) = Inl MaxRetriesExceeded) = (maxRetries \<le> 0)"
  proof (cases "maxRetries \<le> 0")
    case True
    then show ?thesis using a
      by (simp add: dialWebSocketWithECH_def dialLoop.simps [of maxRetries 1 w])
  next
    case False
    then show ?thesis using a dialLoop_not_MaxRetries [of 1 maxRetries w]
      by (simp add: dialWebSocketWithECH_def)
  qed
qed

lemmas eval_dial = example_world_def unloaded_world_def reject_then_accept_def
  always_reject_def always_accept_def refresh_ok_def getECHList_def dial_def refreshECH_def
  sleep_def HasPrefix_def dialWebSocketWithECH_def dialLoop.simps

theorem dialWebSocketWithECH_retry_witness:
  "((1::int) < 2 \<and> getECHList (pc (example_world reject_then_accept)) = Inr [1] \<and>
    certPoolError (example_world reject_then_accept) = None \<and>
    dialResults (example_world reject_then_accept)
      (dialCount (example_world reject_then_accept)) = Inl ''tls: ECH rejected'' \<and>
    Contains ''tls: ECH rejected'' ''ECH'') \<and>
   dialLoop 2 1 (example_world reject_then_accept) =
     dialLoop 2 2 (sleep 1 (refreshECH (snd (dial [1] (example_world reject_then_accept))))) \<and>
   dialWebSocketWithECH 2 (example_world reject_then_accept) =
     (Inr 7, (example_world reject_then_accept)
        \<lparr>pc := (pc (example_world reject_then_accept))\<lparr>echList := [2]\<rparr>,
          refreshCount := 1, dialCount := 2,
          events := [EvDial [1], EvRefresh, EvSleep 1, EvDial [2]]\<rparr>) \<and>
   getECHList (pc (unloaded_world always_accept)) = Inl ECHNotLoaded \<and>
   Contains (Error ECHNotLoaded) ''ECH'' \<and>
   dialLoop 2 1 (unloaded_world always_accept) =
     dialLoop 2 2 (refreshECH (unloaded_world always_accept)) \<and>
   events (snd (dialWebSocketWithECH 2 (unloaded_world always_accept))) = [EvRefresh, EvDial [2]] \<and>
   dialLoop 1 1 (unloaded_world always_accept) = (Inl ECHNotLoaded, unloaded_world always_accept) \<and>
   dialResults (example_world always_reject) (dialCount (example_world always_reject))
     = Inl ''tls: ECH rejected'' \<and>
   fst (dialLoop 1 1 (example_world always_reject)) = Inl (DialError ''tls: ECH rejected'') \<and>
   certPoolError ((example_world always_accept)\<lparr>certPoolError := Some ''no roots''\<rparr>)
     = Some ''no roots'' \<and>
   fst (dialLoop 2 1 ((example_world always_accept)\<lparr>certPoolError := Some ''no roots''\<rparr>))
     = Inl (TLSConfigError ''no roots'') \<and>
   addrParse (example_world always_reject) = Inr (''gw.example'', ''443'', ''/'') \<and>
   fst (dialWebSocketWithECH 0 (example_world always_reject)) = Inl MaxRetriesExceeded \<and>
   fst (dialWebSocketWithECH 1 (example_world always_reject)) \<noteq> Inl MaxRetriesExceeded"
  using dialWebSocketWithECH_retry
      [where maxRetries = 2 and w = "example_world reject_then_accept" and attempt = 1
         and ech = "[1]" and msg = "''tls: ECH rejected''"]
    dialWebSocketWithECH_retry
      [where maxRetries = 2 and attempt = 2 and ech = "[2]" and wsConn = 7
         and w = "sleep 1 (refreshECH (snd (dial [1] (example_world reject_then_accept))))"]
    dialWebSocketWithECH_retry
      [where maxRetries = 2 and w = "unloaded_world always_accept" and attempt = 1
         and echErr = ECHNotLoaded]
    dialWebSocketWithECH_retry
      [where maxRetries = 1 and w = "unloaded_world always_accept" and attempt = 1
         and echErr = ECHNotLoaded]
    dialWebSocketWithECH_retry
      [where maxRetries = 1 and w = "example_world always_reject" and attempt = 1
         and ech = "[1]" and msg = "''tls: ECH rejected''"
         and hpp = "(''gw.example'', ''443'', ''/'')"]
    dialWebSocketWithECH_retry
      [where maxRetries = 2 and attempt = 1 and ech = "[1]" and tlsErr = "''no roots''"
         and w = "(example_world always_accept)\<lparr>certPoolError := Some ''no roots''\<rparr>"]
    dialWebSocketWithECH_retry
      [where maxRetries = 0 and w = "example_world always_reject"
         and hpp = "(''gw.example'', ''443'', ''/'')"]
  by (simp add: eval_dial)

text \<open>
  C4 (as the specification words it) fails twice. On exhaustion: with \<open>maxRetries = 2\<close>,
  as \<^verbatim>\<open>handleTunnel\<close> calls it, and a gateway that rejects ECH on both dials, both attempts
  are used up and the function returns the error of the second dial, not the "maximum
  number of retries" error. On the sleep: with an empty store the first attempt fails
  with an error whose message contains "ECH" while an attempt remains; the store is
  refreshed and the second attempt dials, but nothing sleeps in between.
\<close>

theorem dialWebSocketWithECH_exhausted_counterexample:
  "dialCount (snd (dialWebSocketWithECH 2 (example_world always_reject))) = 2 \<and>
   fst (dialWebSocketWithECH 2 (example_world always_reject))
     = Inl (DialError ''tls: ECH rejected'') \<and>
   fst (dialWebSocketWithECH 2 (example_world always_reject)) \<noteq> Inl MaxRetriesExceeded \<and>
   getECHList (pc (unloaded_world always_accept)) = Inl ECHNotLoaded \<and>
   Contains (Error ECHNotLoaded) ''ECH'' \<and>
   events (snd (dialWebSocketWithECH 2 (unloaded_world always_accept))) = [EvRefresh, EvDial [2]] \<and>
   fst (dialWebSocketWithECH 2 (unloaded_world always_accept)) = Inr 7"
  by (simp add: eval_dial)

section \<open>Parser safety\<close>

lemma index_Some: "i < length s \<Longrightarrow> index s i = Some (s ! i)"
  by (simp add: index_def)

lemma subslice_Some:
  "lo \<le> hi \<Longrightarrow> hi \<le> length s \<Longrightarrow> subslice s lo hi = Some (take (hi - lo) (drop lo s))"
  by (simp add: subslice_def)

lemma Uint16_Some: "2 \<le> length b \<Longrightarrow> \<exists>v. Uint16 b = Some v"
  by (auto simp: Uint16_def index_def)

lemma subslice_Uint16_Some:
  "hi = lo + 2 \<Longrightarrow> hi \<le> length s \<Longrightarrow> \<exists>v. subslice s lo hi \<bind> Uint16 = Some v"
  by (simp add: subslice_def Uint16_Some)

lemma skipLabels_Some: "\<exists>offset'. skipLabels s offset = Some offset'"
proof (induction s offset rule: skipLabels.induct)
  case (1 s offset)
  show ?case
  proof (cases "offset < length s")
    case False
    then show ?thesis by (simp add: skipLabels.simps [of s offset])
  next
    case True
    then show ?thesis
      using "1.IH" [of "s ! offset"]
      by (cases "s ! offset = 0") (simp_all add: skipLabels.simps [of s offset] index_def)
  qed
qed

lemma svcParams_Some: "\<exists>ech. svcParams data offset = Some ech"
proof (induction data offset rule: svcParams.induct)
  case (1 data offset)
  show ?case
  proof (cases "offset + 4 \<le> length data")
    case False
    then show ?thesis by (simp add: svcParams.simps [of data offset])
  next
    case True
    then obtain key where key: "subslice data offset (offset + 2) \<bind> Uint16 = Some key"
      using subslice_Uint16_Some [of "offset + 2" offset data] by auto
    have "\<exists>v. subslice data (offset + 2) (offset + 4) \<bind> Uint16 = Some v"
      by (rule subslice_Uint16_Some) (use True in simp_all)
    then obtain len where len: "subslice data (offset + 2) (offset + 4) \<bind> Uint16 = Some len"
      by blast
    show ?thesis
    proof (cases "offset + 4 + unat len > length data")
      case True
      then show ?thesis using \<open>offset + 4 \<le> length data\<close> key len
        by (simp add: svcParams.simps [of data offset])
    next
      case False
      then have v: "subslice data (offset + 4) (offset + 4 + unat len)
                      = Some (take (unat len) (drop (offset + 4) data))"
        by (simp add: subslice_def)
      show ?thesis
        using "1.IH" [OF True key len False v] True key len False v
        by (cases "key = 5") (simp_all add: svcParams.simps [of data offset])
    qed
  qed
qed

lemma parseHTTPSRecord_Some: "\<exists>ech. parseHTTPSRecord data = Some ech"
proof (cases "length data < 2")
  case True
  then show ?thesis by (simp add: parseHTTPSRecord_def)
next
  case False
  obtain off where off: "skipLabels data 2 = Some off"
    using skipLabels_Some by blast
  show ?thesis
    using False off svcParams_Some [of data 3] svcParams_Some [of data "off + 1"]
    by (auto simp: parseHTTPSRecord_def index_def)
qed

lemma answers_Some: "\<exists>r. answers response ancount i offset = Some r"
proof (induction response ancount i offset rule: answers.induct)
  case (1 response ancount i offset)
  show ?case
  proof (cases "i < ancount \<and> offset < length response")
    case False
    then show ?thesis by (auto simp add: answers.simps [of response ancount i offset])
  next
    case True
    define b where "b = response ! offset"
    have b: "index response offset = Some b"
      using True by (simp add: index_def b_def)
    obtain off1 where off1:
      "(if b AND 0xC0 = 0xC0 then Some (offset + 2)
        else do { offset \<leftarrow> skipLabels response offset; Some (offset + 1) }) = Some off1"
      using skipLabels_Some [of response offset] by (cases "b AND 0xC0 = 0xC0") auto
    show ?thesis
    proof (cases "off1 + 10 > length response")
      case True
      then show ?thesis using \<open>i < ancount \<and> offset < length response\<close> b off1
        by (simp add: answers.simps [of response ancount i offset])
    next
      case fits: False
      then obtain rrType where rrType: "subslice response off1 (off1 + 2) \<bind> Uint16 = Some rrType"
        using subslice_Uint16_Some [of "off1 + 2" off1 response] by auto
      from fits obtain dataLen where dataLen:
        "subslice response (off1 + 8) (off1 + 8 + 2) \<bind> Uint16 = Some dataLen"
        using subslice_Uint16_Some [of "off1 + 8 + 2" "off1 + 8" response] by auto
      show ?thesis
      proof (cases "off1 + 10 + unat dataLen > length response")
        case True
        then show ?thesis
          using \<open>i < ancount \<and> offset < length response\<close> b off1 fits rrType dataLen
          by (simp add: answers.simps [of response ancount i offset])
      next
        case False
        define data where "data = take (unat dataLen) (drop (off1 + 10) response)"
        have data: "subslice response (off1 + 10) (off1 + 10 + unat dataLen) = Some data"
          using False by (simp add: subslice_def data_def)
        obtain ech where ech:
          "(if rrType = typeHTTPS then parseHTTPSRecord data else Some []) = Some ech"
          using parseHTTPSRecord_Some [of data] by (cases "rrType = typeHTTPS") auto
        show ?thesis
        proof (cases "ech \<noteq> []")
          case True
          then show ?thesis
            using \<open>i < ancount \<and> offset < length response\<close> b off1 fits rrType dataLen False
              data ech
            by (simp add: answers.simps [of response ancount i offset])
        next
          case e: False
          have "\<exists>r. answers response ancount (i + 1) (off1 + 10 + unat dataLen) = Some r"
            using "1.IH" [OF _ _ b off1 fits rrType dataLen False data ech e] True
            by simp
          then show ?thesis
            using \<open>i < ancount \<and> offset < length response\<close> b off1 fits rrType dataLen False
              data ech e
            by (simp add: answers.simps [of response ancount i offset])
        qed
      qed
    qed
  qed
qed

text \<open>
  C10: for every byte string, \<^verbatim>\<open>parseDNSResponse\<close> and \<^verbatim>\<open>parseHTTPSRecord\<close> return
  (both are total functions, their loops terminate) and they return a value of the
  source: no index or slice expression they evaluate is out of bounds.
\<close>

theorem parsers_never_panic:
  "(\<exists>ech err. parseDNSResponse response = Some (ech, err)) \<and>
   (\<exists>ech. parseHTTPSRecord data = Some ech)"
proof
  show "\<exists>ech err. parseDNSResponse response = Some (ech, err)"
  proof (cases "length response < 12")
    case True
    then show ?thesis by (simp add: parseDNSResponse_def)
  next
    case False
    then obtain ancount where a: "subslice response 6 8 \<bind> Uint16 = Some ancount"
      using subslice_Uint16_Some [of 8 6 response] by auto
    obtain off where off: "skipLabels response 12 = Some off"
      using skipLabels_Some by blast
    obtain r where "answers response (unat ancount) 0 (off + 5) = Some r"
      using answers_Some by blast
    then show ?thesis using False a off
      by (cases r) (simp add: parseDNSResponse_def)
  qed
next
  show "\<exists>ech. parseHTTPSRecord data = Some ech"
    by (rule parseHTTPSRecord_Some)
qed

section \<open>The parser on well-formed, truncated and malformed messages\<close>

lemma Uint16_be16: "Uint16 (be16 w @ rest) = Some w"
proof -
  have "ucast (ucast w :: byte) OR push_bit 8 (ucast (ucast (drop_bit 8 w) :: byte)) = w"
    by (rule bit_word_eqI) (auto simp: bit_simps)
  then show ?thesis
    by (simp add: Uint16_def be16_def index_def)
qed

lemma unat_len16: "n < 65536 \<Longrightarrow> unat (of_nat n :: 16 word) = n"
  by (simp add: unat_of_nat)

lemma unat_len8: "n < 256 \<Longrightarrow> unat (of_nat n :: byte) = n"
  by (simp add: unat_of_nat)

lemma len8_nonzero: "0 < n \<Longrightarrow> n < 256 \<Longrightarrow> (of_nat n :: byte) \<noteq> 0"
  using unat_len8 [of n] by auto

lemma not_pointer: "unat (b :: byte) < 192 \<Longrightarrow> b AND 0xC0 \<noteq> 0xC0"
proof
  assume a: "unat b < 192" and e: "b AND 0xC0 = 0xC0"
  have "b AND 0xC0 \<le> b" by (rule word_and_le2)
  then have "unat (0xC0 :: byte) \<le> unat b" using e by (simp add: word_le_nat_alt)
  then show False using a by simp
qed

lemma appendLabels_append: "appendLabels query labels = query @ appendLabels [] labels"
proof (induction labels arbitrary: query)
  case Nil
  show ?case by simp
next
  case (Cons l ls)
  show ?case
    using Cons.IH [of "query @ [of_nat (length l)] @ map of_char l"]
      Cons.IH [of "[of_nat (length l)] @ map of_char l"]
    by simp
qed

lemma appendLabels_Cons:
  "appendLabels [] (l # ls) = of_nat (length l) # map of_char l @ appendLabels [] ls"
  using appendLabels_append [of "[of_nat (length l)] @ map of_char l" ls] by simp

lemma subslice_mid:
  "lo = length pre \<Longrightarrow> hi = lo + length xs \<Longrightarrow> subslice (pre @ xs @ post) lo hi = Some xs"
  by (simp add: subslice_def)

lemma length_be16 [simp]: "length (be16 w) = 2"
  by (simp add: be16_def)

lemma length_be32 [simp]: "length (be32 w) = 4"
  by (simp add: be32_def)

lemma skipLabels_walk:
  "labels_ok 256 ls \<Longrightarrow>
   \<exists>k. skipLabels (take n (pre @ appendLabels [] ls @ 0 # rest)) (length pre) = Some k \<and>
       (if length pre + length (appendLabels [] ls) < n
        then k = length pre + length (appendLabels [] ls) else n \<le> k)"
proof (induction ls arbitrary: pre)
  case Nil
  show ?case
    by (subst skipLabels.simps) (auto simp: index_def nth_append)
next
  case (Cons l ls)
  let ?s = "take n (pre @ appendLabels [] (l # ls) @ 0 # rest)"
  from Cons.prems have l: "l \<noteq> []" "length l < 256" and ls: "labels_ok 256 ls"
    by (simp_all add: labels_ok_def)
  show ?case
  proof (cases "length pre < n")
    case False
    then have "skipLabels ?s (length pre) = Some (length pre)"
      by (subst skipLabels.simps) simp
    with False show ?thesis by simp
  next
    case True
    have b: "index ?s (length pre) = Some (of_nat (length l))"
      using True by (simp add: index_def appendLabels_Cons nth_append del: appendLabels.simps)
    have nz: "(of_nat (length l) :: byte) \<noteq> 0"
      using l by (simp add: len8_nonzero)
    have step: "skipLabels ?s (length pre) = skipLabels ?s (length pre + length l + 1)"
      using True b nz l by (subst skipLabels.simps) (simp add: unat_len8)
    have s: "?s = take n ((pre @ of_nat (length l) # map of_char l) @ appendLabels [] ls @ 0 # rest)"
      by (simp add: appendLabels_Cons del: appendLabels.simps)
    from Cons.IH [OF ls, of "pre @ of_nat (length l) # map of_char l"]
    obtain k where k: "skipLabels ?s (length pre + length l + 1) = Some k"
      and k': "if length pre + length l + 1 + length (appendLabels [] ls) < n
          then k = length pre + length l + 1 + length (appendLabels [] ls) else n \<le> k"
      unfolding s by (auto simp: add.assoc)
    show ?thesis
      using step k k' by (auto simp: appendLabels_Cons simp del: appendLabels.simps split: if_splits)
  qed
qed

lemma skipLabels_full:
  assumes "labels_ok 256 ls"
  shows "skipLabels (pre @ appendLabels [] ls @ 0 # rest) (length pre)
           = Some (length pre + length (appendLabels [] ls))"
  using skipLabels_walk [OF assms, of "length (pre @ appendLabels [] ls @ 0 # rest)" pre rest]
  by simp

lemma svcParams_found:
  "params_ok others \<Longrightarrow> length e < 65536 \<Longrightarrow>
   svcParams (pre @ svcParamList others @ svcParam 5 e @ after) (length pre)
     = Some (EncodeToString e)"
proof (induction others arbitrary: pre)
  case Nil
  let ?d = "pre @ svcParamList [] @ svcParam 5 e @ after"
  have d: "?d = pre @ be16 5 @ be16 (of_nat (length e)) @ e @ after"
    by (simp add: svcParam_def)
  have key: "subslice ?d (length pre) (length pre + 2) = Some (be16 5)"
    unfolding d by (rule subslice_mid) simp_all
  have len: "subslice ?d (length pre + 2) (length pre + 4) = Some (be16 (of_nat (length e)))"
    using subslice_mid [of "length pre + 2" "pre @ be16 5" "length pre + 4"
        "be16 (of_nat (length e))" "e @ after"]
    unfolding d by simp
  have val: "subslice ?d (length pre + 4) (length pre + 4 + length e) = Some e"
    using subslice_mid [of "length pre + 4" "pre @ be16 5 @ be16 (of_nat (length e))"
        "length pre + 4 + length e" e after]
    unfolding d by simp
  have fits: "length pre + 4 + length e \<le> length ?d"
    unfolding d by simp
  show ?case
    using key len val fits Nil.prems(2) Uint16_be16 [of 5 "[]"]
      Uint16_be16 [of "of_nat (length e)" "[]"]
    by (subst svcParams.simps) (simp add: unat_len16)
next
  case (Cons p ps)
  obtain k v where p: "p = (k, v)" by (cases p)
  from Cons.prems(1) p have k: "k \<noteq> 5" and v: "length v < 65536" and ps: "params_ok ps"
    by (simp_all add: params_ok_def)
  let ?d = "pre @ svcParamList (p # ps) @ svcParam 5 e @ after"
  let ?more = "svcParamList ps @ svcParam 5 e @ after"
  have d: "?d = pre @ be16 k @ be16 (of_nat (length v)) @ v @ ?more"
    by (simp add: svcParam_def p)
  have key: "subslice ?d (length pre) (length pre + 2) = Some (be16 k)"
    unfolding d by (rule subslice_mid) simp_all
  have len: "subslice ?d (length pre + 2) (length pre + 4) = Some (be16 (of_nat (length v)))"
    using subslice_mid [of "length pre + 2" "pre @ be16 k" "length pre + 4"
        "be16 (of_nat (length v))" "v @ ?more"]
    unfolding d by simp
  have val: "subslice ?d (length pre + 4) (length pre + 4 + length v) = Some v"
    using subslice_mid [of "length pre + 4" "pre @ be16 k @ be16 (of_nat (length v))"
        "length pre + 4 + length v" v ?more]
    unfolding d by simp
  have fits: "length pre + 4 + length v \<le> length ?d"
    unfolding d by simp
  have step: "svcParams ?d (length pre) = svcParams ?d (length pre + 4 + length v)"
    using key len val fits k v Uint16_be16 [of k "[]"] Uint16_be16 [of "of_nat (length v)" "[]"]
    by (subst svcParams.simps) (simp add: unat_len16)
  let ?pre' = "pre @ be16 k @ be16 (of_nat (length v)) @ v"
  have ih: "svcParams (?pre' @ ?more) (length ?pre') = Some (EncodeToString e)"
    by (rule Cons.IH [OF ps Cons.prems(2)])
  have eqd: "?d = ?pre' @ ?more"
    unfolding d by simp
  have eql: "length pre + 4 + length v = length ?pre'"
    by simp
  have "svcParams ?d (length pre + 4 + length v) = Some (EncodeToString e)"
    unfolding eqd eql by (rule ih)
  with step show ?case by simp
qed

lemma parseHTTPSRecord_found:
  assumes "labels_ok 256 target" "params_ok others" "length e < 65536"
  shows "parseHTTPSRecord (httpsRData priority target others e after) = Some (EncodeToString e)"
proof -
  let ?d = "httpsRData priority target others e after"
  let ?params = "svcParamList others @ svcParam 5 e @ after"
  have d: "?d = be16 priority @ appendLabels [] target @ 0 # ?params"
    by (simp add: httpsRData_def encodeName_def)
  have skip: "skipLabels ?d 2 = Some (2 + length (appendLabels [] target))"
    using skipLabels_full [OF assms(1), of "be16 priority" ?params] unfolding d by simp
  have found: "svcParams ?d (2 + length (appendLabels [] target) + 1) = Some (EncodeToString e)"
    using svcParams_found [OF assms(2,3), of "be16 priority @ appendLabels [] target @ [0]" after]
    unfolding d by simp
  have len: "2 < length ?d"
    unfolding d by simp
  show ?thesis
  proof (cases target)
    case Nil
    then have "index ?d 2 = Some 0"
      unfolding d by (simp add: index_def nth_append)
    then show ?thesis
      using len found Nil by (simp add: parseHTTPSRecord_def)
  next
    case (Cons l ls)
    with assms(1) have "l \<noteq> []" "length l < 256"
      by (simp_all add: labels_ok_def)
    then have nz: "(of_nat (length l) :: byte) \<noteq> 0"
      by (simp add: len8_nonzero)
    have "index ?d 2 = Some (of_nat (length l))"
      unfolding d by (simp add: index_def nth_append Cons appendLabels_Cons del: appendLabels.simps)
    then show ?thesis
      using len found skip nz by (simp add: parseHTTPSRecord_def)
  qed
qed


lemma sextets:
  fixes v :: nat
  assumes "v < 16777216"
  shows "v div 262144 mod 64 * 262144 + v div 4096 mod 64 * 4096 + v div 64 mod 64 * 64 + v mod 64 = v"
proof -
  have a: "v div 262144 mod 64 = v div 262144" using assms by simp
  have b: "v div 4096 = v div 262144 * 64 + v div 4096 mod 64"
    using div_mult_mod_eq [of "v div 4096" 64] by (simp add: div_mult2_eq [symmetric])
  have c: "v div 64 = v div 4096 * 64 + v div 64 mod 64"
    using div_mult_mod_eq [of "v div 64" 64] by (simp add: div_mult2_eq [symmetric])
  have d: "v = v div 64 * 64 + v mod 64" by simp
  show ?thesis using a b c d by linarith
qed

lemma sextets3:
  fixes v :: nat
  assumes "v < 16777216" "v mod 64 = 0"
  shows "v div 262144 mod 64 * 262144 + v div 4096 mod 64 * 4096 + v div 64 mod 64 * 64 = v"
proof -
  have "v div 262144 mod 64 * 262144 + v div 4096 mod 64 * 4096 + v div 64 mod 64 * 64 + v mod 64 = v"
    by (rule sextets [OF assms(1)])
  then show ?thesis unfolding assms(2) by (simp only: add_0_right)
qed

lemma sextets2:
  fixes v :: nat
  assumes "v < 16777216" "v mod 4096 = 0"
  shows "v div 262144 mod 64 * 262144 + v div 4096 mod 64 * 4096 = v"
proof -
  from assms(2) have "4096 dvd v" by (simp add: dvd_eq_mod_eq_0)
  then obtain k where k: "v = 4096 * k" by (rule dvdE)
  have v64: "v = 64 * (64 * k)" using k by simp
  have m: "v mod 64 = 0" by (subst v64) simp
  have "v div 64 = 64 * k" by (subst v64) simp
  then have d: "v div 64 mod 64 = 0" by simp
  have "v div 262144 mod 64 * 262144 + v div 4096 mod 64 * 4096 + v div 64 mod 64 * 64 = v"
    by (rule sextets3 [OF assms(1) m])
  then show ?thesis unfolding d by (simp only: mult_0 add_0_right)
qed

lemma byte_of_nat_mod: "(of_nat n :: byte) = of_nat (n mod 256)"
  by (simp add: word_of_nat_eq_iff take_bit_eq_mod)

lemma octets:
  fixes a b c :: byte
  defines "v \<equiv> unat a * 65536 + unat b * 256 + unat c"
  shows "v < 16777216" "(of_nat (v div 65536) :: byte) = a" "(of_nat (v div 256) :: byte) = b"
    "(of_nat v :: byte) = c"
proof -
  have a: "unat a < 256" and b: "unat b < 256" and c: "unat c < 256"
    using unsigned_less [of a] unsigned_less [of b] unsigned_less [of c] by simp_all
  show "v < 16777216" using a b c by (simp add: v_def)
  have v1: "v = (unat b * 256 + unat c) + unat a * 65536" by (simp add: v_def)
  have "v div 65536 = unat a" unfolding v1 using b c by simp
  then show "(of_nat (v div 65536) :: byte) = a" by simp
  define k where "k = unat a * 256 + unat b"
  have v2: "v = unat c + 256 * k" by (simp add: v_def k_def)
  have "v div 256 = unat c div 256 + k" unfolding v2 by simp
  then have "v div 256 = k" using c by simp
  then have "(v div 256) mod 256 = unat b" using b by (simp add: k_def)
  then show "(of_nat (v div 256) :: byte) = b"
    using byte_of_nat_mod [of "v div 256"] by simp
  have "v mod 256 = unat c mod 256" unfolding v2 by (rule mod_mult_self2)
  then have "v mod 256 = unat c" using c by simp
  then show "(of_nat v :: byte) = c"
    using byte_of_nat_mod [of v] by simp
qed

lemma decodeMap_nth:
  "distinct xs \<Longrightarrow> i < length xs \<Longrightarrow> decodeMap xs (xs ! i) = Some i"
proof (induction xs arbitrary: i)
  case Nil
  then show ?case by simp
next
  case (Cons x xs)
  show ?case
  proof (cases i)
    case 0
    then show ?thesis by simp
  next
    case (Suc j)
    with Cons.prems have "xs ! j \<in> set xs" "x \<notin> set xs" by auto
    then have "x \<noteq> xs ! j" by auto
    with Suc Cons show ?thesis by simp
  qed
qed

lemma distinct_encodeStd: "distinct encodeStd"
  by (simp add: encodeStd_def)

lemma length_encodeStd: "length encodeStd = 64"
  by (simp add: encodeStd_def)

lemma decodeMap_encode: "decodeMap encodeStd (encode x) = Some (x mod 64)"
  unfolding encode_def
  by (rule decodeMap_nth [OF distinct_encodeStd]) (simp add: length_encodeStd)

lemma encode_not_pad: "encode x \<noteq> CHR ''=''"
proof -
  have "encode x \<in> set encodeStd"
    unfolding encode_def by (rule nth_mem) (simp add: length_encodeStd)
  moreover have "CHR ''='' \<notin> set encodeStd"
    by (simp add: encodeStd_def)
  ultimately show ?thesis by auto
qed

lemma EncodeToString_Nil_iff: "EncodeToString src = [] \<longleftrightarrow> src = []"
  by (cases src rule: EncodeToString.cases) (simp_all add: Let_def)

lemma decode_quad:
  fixes a b c :: byte
  defines "v \<equiv> unat a * 65536 + unat b * 256 + unat c"
  shows "do { n0 \<leftarrow> decodeMap encodeStd (encode (v div 262144));
              n1 \<leftarrow> decodeMap encodeStd (encode (v div 4096));
              n2 \<leftarrow> decodeMap encodeStd (encode (v div 64));
              n3 \<leftarrow> decodeMap encodeStd (encode v);
              f (of_nat ((n0 * 262144 + n1 * 4096 + n2 * 64 + n3) div 65536) :: byte)
                (of_nat ((n0 * 262144 + n1 * 4096 + n2 * 64 + n3) div 256) :: byte)
                (of_nat (n0 * 262144 + n1 * 4096 + n2 * 64 + n3) :: byte) } = f a b c"
proof -
  have s: "v div 262144 mod 64 * 262144 + v div 4096 mod 64 * 4096 + v div 64 mod 64 * 64 + v mod 64 = v"
    by (rule sextets) (simp add: v_def octets(1))
  show ?thesis
    by (simp only: decodeMap_encode Option.bind.simps s) (simp only: v_def octets)
qed

lemma base64_roundtrip: "DecodeString (EncodeToString e) = Some e"
proof (induction e rule: EncodeToString.induct)
  case 1
  show ?case by simp
next
  case (2 a)
  define v where "v = unat a * 65536"
  have v: "v = unat a * 65536 + unat (0::byte) * 256 + unat (0::byte)" by (simp add: v_def)
  have lt: "v < 16777216" unfolding v by (rule octets(1))
  have "v mod 4096 = 0" by (simp add: v_def)
  then have s: "v div 262144 mod 64 * 262144 + v div 4096 mod 64 * 4096 = v"
    by (rule sextets2 [OF lt])
  have "(of_nat (v div 65536) :: byte) = a" unfolding v by (rule octets(2))
  then show ?case
    by (simp add: Let_def v_def [symmetric] decodeMap_encode s)
next
  case (3 a b)
  define v where "v = unat a * 65536 + unat b * 256"
  have v: "v = unat a * 65536 + unat b * 256 + unat (0::byte)" by (simp add: v_def)
  have lt: "v < 16777216" unfolding v by (rule octets(1))
  have "v mod 64 = 0" by (simp add: v_def)
  then have s: "v div 262144 mod 64 * 262144 + v div 4096 mod 64 * 4096 + v div 64 mod 64 * 64 = v"
    by (rule sextets3 [OF lt])
  have "(of_nat (v div 65536) :: byte) = a" "(of_nat (v div 256) :: byte) = b"
    unfolding v by (rule octets(2), rule octets(3))
  then show ?case
    by (simp add: Let_def v_def [symmetric] decodeMap_encode s encode_not_pad)
next
  case (4 a b c src)
  define v where "v = unat a * 65536 + unat b * 256 + unat c"
  show ?case
  proof (cases "EncodeToString src")
    case Nil
    then have "src = []" by (simp add: EncodeToString_Nil_iff)
    then show ?thesis
      using decode_quad [of a b c "\<lambda>x y z. Some [x, y, z]"]
      by (simp add: Let_def encode_not_pad)
  next
    case (Cons x xs)
    then show ?thesis
      using decode_quad [of a b c "\<lambda>x y z. Some ([x, y, z] @ src)"] 4
      by (simp add: Let_def)
  qed
qed


lemma index_take_at:
  assumes "M = pre @ x # post" "length pre < n"
  shows "index (take n M) (length pre) = Some x"
proof -
  have "take n M ! length pre = M ! length pre"
    using assms(2) by (rule nth_take)
  moreover have "M ! length pre = x"
    by (simp add: assms(1))
  moreover have "length pre < length (take n M)"
    using assms by simp
  ultimately show ?thesis
    by (simp only: index_def if_True)
qed

lemma read16_take:
  "M = pre @ be16 w @ post \<Longrightarrow> lo = length pre \<Longrightarrow> hi = lo + 2 \<Longrightarrow> hi \<le> n \<Longrightarrow>
   subslice (take n M) lo hi \<bind> Uint16 = Some w"
  using Uint16_be16 [of w "[]"]
  by (simp add: subslice_def be16_def)

lemma pointer_tag: "((p :: byte) OR 0xC0) AND 0xC0 = 0xC0"
  by (rule bit_word_eqI) (auto simp: bit_simps)

lemma buildDNSQuery_question:
  "drop 12 (buildDNSQuery domain typeHTTPS)
     = appendLabels [] (Split domain (CHR ''.'')) @ [0, 0, 65, 0, 1]"
  by (subst buildDNSQuery_def, subst appendLabels_append) (simp add: typeHTTPS_def)

lemma length_encodeOwner: "0 < length (encodeOwner owner)"
  by (cases owner) (simp_all add: encodeName_def)

lemma owner_first_byte:
  assumes "labels_ok 64 ols"
  shows "\<exists>b rest. appendLabels [] ols @ [0] = b # rest \<and> b AND 0xC0 \<noteq> 0xC0"
proof (cases ols)
  case Nil
  then show ?thesis by simp
next
  case (Cons l ls)
  with assms have "length l < 64" by (simp add: labels_ok_def)
  then have "unat (of_nat (length l) :: byte) < 192"
    by (simp add: unat_len8)
  then have "(of_nat (length l) :: byte) AND 0xC0 \<noteq> 0xC0"
    by (rule not_pointer)
  then show ?thesis
    by (simp add: Cons appendLabels_Cons del: appendLabels.simps)
qed

lemma labels_ok_mono: "labels_ok 64 ls \<Longrightarrow> labels_ok 256 ls"
  by (induction ls) (auto simp: labels_ok_def)

text \<open>The owner name of the first record is skipped, or the walk runs off the end.\<close>

lemma owner_skip:
  assumes "owner_ok owner" "M = pre @ encodeOwner owner @ post" "length pre < n"
  shows "\<exists>b off1. index (take n M) (length pre) = Some b \<and>
           (if b AND 0xC0 = 0xC0 then Some (length pre + 2)
            else do { offset \<leftarrow> skipLabels (take n M) (length pre); Some (offset + 1) }) = Some off1 \<and>
           (if length pre + length (encodeOwner owner) \<le> n
            then off1 = length pre + length (encodeOwner owner) else n < off1 + 1)"
proof (cases owner)
  case (Compressed p0 p1)
  have "index (take n M) (length pre) = Some (p0 OR 0xC0)"
    by (rule index_take_at [OF _ assms(3)]) (simp add: assms(2) Compressed)
  then show ?thesis
    using assms(3) by (auto simp: pointer_tag Compressed)
next
  case (Labels ols)
  with assms(1) have ok: "labels_ok 64 ols" by simp
  from owner_first_byte [OF ok] obtain b rest
    where b: "appendLabels [] ols @ [0] = b # rest" and nb: "b AND 0xC0 \<noteq> 0xC0"
    by blast
  have M: "M = pre @ appendLabels [] ols @ 0 # post"
    by (simp add: assms(2) Labels encodeName_def)
  have "M = pre @ b # rest @ post"
    using b by (simp add: assms(2) Labels encodeName_def)
  then have ib: "index (take n M) (length pre) = Some b"
    by (rule index_take_at [OF _ assms(3)])
  from skipLabels_walk [OF labels_ok_mono [OF ok], of n pre post]
  obtain k where k: "skipLabels (take n M) (length pre) = Some k"
    and k': "if length pre + length (appendLabels [] ols) < n
          then k = length pre + length (appendLabels [] ols) else n \<le> k"
    unfolding M by blast
  show ?thesis
    using ib nb k k' by (auto simp: Labels encodeName_def split: if_splits)
qed

text \<open>
  One turn of the answer loop on a message cut after \<open>n\<close> bytes, at the start of a record:
  a record that does not lie within the \<open>n\<close> bytes ends the loop with the empty string;
  otherwise an HTTPS record with a non-empty result returns it, and any other record is
  stepped over.
\<close>

lemma subslice_take_mid:
  assumes "M = pre @ xs @ post" "lo = length pre" "hi = lo + length xs" "hi \<le> n"
  shows "subslice (take n M) lo hi = Some xs"
  using assms by (simp add: subslice_def)

lemma length_encodeRR:
  "length (encodeRR r) = length (encodeOwner (rr_owner r)) + 10 + length (rr_rdata r)"
  by (simp add: encodeRR_def)

lemma record_step:
  assumes ok: "rr_ok r" and ia: "i < a" and M: "M = pre @ encodeRR r @ rest"
  shows "answers (take n M) a i (length pre) =
     (if n < length pre + length (encodeRR r) then Some ([], None)
      else if rr_type r = typeHTTPS
      then (case parseHTTPSRecord (rr_rdata r) of
              Some ech \<Rightarrow>
                if ech \<noteq> [] then Some (ech, None)
                else answers (take n M) a (i + 1) (length pre + length (encodeRR r))
            | None \<Rightarrow> None)
      else answers (take n M) a (i + 1) (length pre + length (encodeRR r)))"
proof -
  define S where "S = take n M"
  define o0 where "o0 = length pre"
  define ow where "ow = encodeOwner (rr_owner r)"
  define fixed where "fixed = be16 (rr_type r) @ be16 (rr_class r) @ be32 (rr_ttl r)"
  define rdata where "rdata = rr_rdata r"
  define f0 where "f0 = o0 + length ow"
  have own: "owner_ok (rr_owner r)" and len: "length rdata < 65536"
    using ok by (simp_all add: rr_ok_def rdata_def)
  have lfixed: "length fixed = 8" by (simp add: fixed_def)
  have M1: "M = pre @ ow @ fixed @ be16 (of_nat (length rdata)) @ rdata @ rest"
    by (simp add: M encodeRR_def ow_def fixed_def rdata_def)
  have lrr: "length (encodeRR r) = length ow + 10 + length rdata"
    by (simp add: length_encodeRR ow_def rdata_def)
  have lM: "length M = f0 + 10 + length rdata + length rest"
    by (simp add: M1 lfixed f0_def o0_def)
  have low: "0 < length ow" unfolding ow_def by (rule length_encodeOwner)
  have lS: "length S = min n (length M)" by (simp add: S_def)
  show ?thesis
  proof (cases "n \<le> o0")
    case True
    then have "length S \<le> o0" by (simp add: lS)
    then have "answers S a i o0 = Some ([], None)"
      using ia by (subst answers.simps) simp
    moreover have "n < length pre + length (encodeRR r)"
      using True low by (simp add: lrr o0_def)
    ultimately show ?thesis by (simp add: S_def o0_def)
  next
    case False
    have M2: "M = pre @ encodeOwner (rr_owner r) @ (fixed @ be16 (of_nat (length rdata)) @ rdata @ rest)"
      by (simp add: M1 ow_def)
    from owner_skip [OF own M2, of n] False
    obtain b off1 where b: "index S o0 = Some b"
      and off1: "(if b AND 0xC0 = 0xC0 then Some (o0 + 2)
            else do { offset \<leftarrow> skipLabels S o0; Some (offset + 1) }) = Some off1"
      and off1': "if f0 \<le> n then off1 = f0 else n < off1 + 1"
      unfolding S_def [symmetric] f0_def ow_def o0_def by auto
    have o0S: "\<not> length S \<le> o0" using False lM low by (simp add: lS f0_def)
    show ?thesis
    proof (cases "f0 + 10 \<le> n")
      case short: False
      then have "length S < off1 + 10" using off1' by (auto simp: lS split: if_splits)
      then have "answers S a i o0 = Some ([], None)"
        using ia o0S b off1 by (subst answers.simps) simp
      moreover have "n < length pre + length (encodeRR r)"
        using short by (simp add: lrr f0_def o0_def)
      ultimately show ?thesis by (simp add: S_def o0_def)
    next
      case True
      then have oeq: "off1 = f0" using off1' by (auto split: if_splits)
      have fits: "\<not> length S < f0 + 10" using True by (simp add: lS lM)
      have ty: "subslice S f0 (f0 + 2) \<bind> Uint16 = Some (rr_type r)"
        unfolding S_def
        by (rule read16_take [where pre = "pre @ ow"
              and post = "be16 (rr_class r) @ be32 (rr_ttl r) @ be16 (of_nat (length rdata)) @ rdata @ rest"])
           (use True in \<open>simp_all add: M1 fixed_def f0_def o0_def\<close>)
      have dl: "subslice S (f0 + 8) (f0 + 8 + 2) \<bind> Uint16 = Some (of_nat (length rdata))"
        unfolding S_def
        by (rule read16_take [where pre = "pre @ ow @ fixed" and post = "rdata @ rest"])
           (use True in \<open>simp_all add: M1 lfixed f0_def o0_def\<close>)
      have ul: "unat (of_nat (length rdata) :: 16 word) = length rdata"
        using len by (rule unat_len16)
      have endeq: "length pre + length (encodeRR r) = f0 + 10 + length rdata"
        by (simp add: lrr f0_def o0_def)
      show ?thesis
      proof (cases "n < f0 + 10 + length rdata")
        case True
        then have "length S < f0 + 10 + length rdata" by (simp add: lS)
        then have "answers S a i o0 = Some ([], None)"
          using ia o0S b off1 oeq fits ty dl ul by (subst answers.simps) simp
        then show ?thesis using True by (simp add: S_def o0_def endeq)
      next
        case False
        have data: "subslice S (f0 + 10) (f0 + 10 + length rdata) = Some rdata"
          unfolding S_def
          by (rule subslice_take_mid [where pre = "pre @ ow @ fixed @ be16 (of_nat (length rdata))"
                and post = rest])
             (use False in \<open>simp_all add: M1 lfixed f0_def o0_def\<close>)
        have nl: "\<not> length S < f0 + 10 + length rdata" using False by (simp add: lS lM)
        obtain ech where ech: "parseHTTPSRecord rdata = Some ech"
          using parseHTTPSRecord_Some by blast
        have "answers S a i o0 =
            (if rr_type r = typeHTTPS \<and> ech \<noteq> [] then Some (ech, None)
             else answers S a (i + 1) (f0 + 10 + length rdata))"
          using ia o0S b off1 oeq fits ty dl ul nl data ech
          by (subst answers.simps) simp
        then show ?thesis
          using False ech by (simp add: S_def o0_def endeq rdata_def)
      qed
    qed
  qed
qed

lemma encodeRR_nonempty: "0 < length (encodeRR r)"
  by (simp add: length_encodeRR)

lemma completeRecords_0: "completeRecords 0 rs = []"
  using encodeRR_nonempty by (cases rs) (auto simp: not_le)

lemma completeRecords_all:
  "length (encodeRRs rs) \<le> n \<Longrightarrow> completeRecords n rs = rs"
  by (induction rs arbitrary: n) auto

lemma answers_done: "\<not> i < a \<Longrightarrow> answers S a i offset = Some ([], None)"
  by (subst answers.simps) simp

lemma answers_past_end: "length S \<le> offset \<Longrightarrow> answers S a i offset = Some ([], None)"
  by (subst answers.simps) simp

lemma firstECH_step:
  assumes "parseHTTPSRecord (rr_rdata r) = Some ech"
  shows "firstECH (r # rs) = (if rr_type r = typeHTTPS \<and> ech \<noteq> [] then ech else firstECH rs)"
  using assms by simp

lemma answers_prefix:
  assumes "list_all rr_ok rs" and "trailer = [] \<or> a \<le> i + length rs"
  shows "answers (take n (pre @ encodeRRs rs @ trailer)) a i (length pre)
           = Some (firstECH (take (a - i) (completeRecords (n - length pre) rs)), None)"
  using assms
proof (induction rs arbitrary: pre i)
  case Nil
  show ?case
  proof (cases "i < a")
    case False
    then show ?thesis by (simp add: answers_done)
  next
    case True
    with Nil.prems(2) have "trailer = []" by simp
    then show ?thesis by (simp add: answers_past_end)
  qed
next
  case (Cons r rs)
  let ?M = "pre @ encodeRRs (r # rs) @ trailer"
  from Cons.prems have ok: "rr_ok r" and oks: "list_all rr_ok rs" by simp_all
  show ?case
  proof (cases "i < a")
    case False
    then show ?thesis by (simp add: answers_done)
  next
    case ia: True
    have M: "?M = pre @ encodeRR r @ (encodeRRs rs @ trailer)" by simp
    note step = record_step [OF ok ia M, of n]
    show ?thesis
    proof (cases "n < length pre + length (encodeRR r)")
      case True
      then have "\<not> length (encodeRR r) \<le> n - length pre"
        using encodeRR_nonempty [of r] by linarith
      then have "completeRecords (n - length pre) (r # rs) = []"
        by simp
      with step True show ?thesis by simp
    next
      case False
      then have c: "completeRecords (n - length pre) (r # rs)
                      = r # completeRecords (n - length pre - length (encodeRR r)) rs"
        by simp
      obtain ech where ech: "parseHTTPSRecord (rr_rdata r) = Some ech"
        using parseHTTPSRecord_Some by blast
      have "a - i = Suc (a - (i + 1))"
        using ia by simp
      then have tk: "take (a - i) (r # xs) = r # take (a - (i + 1)) xs" for xs
        by (simp only: take_Suc_Cons)
      have cont: "answers (take n ?M) a (i + 1) (length pre + length (encodeRR r))
                    = Some (firstECH (take (a - (i + 1))
                        (completeRecords (n - length pre - length (encodeRR r)) rs)), None)"
      proof -
        have "trailer = [] \<or> a \<le> (i + 1) + length rs"
          using Cons.prems(2) by auto
        from Cons.IH [OF oks this, of "pre @ encodeRR r"]
        show ?thesis by (simp add: add.commute diff_diff_eq)
      qed
      show ?thesis
        using step False ech cont
        by (simp only: c tk firstECH_step [OF ech]) (simp split: if_splits)
    qed
  qed
qed

lemma length_buildDNSQuery:
  "length (buildDNSQuery domain typeHTTPS)
     = 12 + length (appendLabels [] (Split domain (CHR ''.''))) + 5"
  by (subst buildDNSQuery_def, subst appendLabels_append) simp

lemma parseDNSResponse_prefix:
  assumes dom: "labels_ok 256 (Split domain (CHR ''.''))"
    and ok: "list_all rr_ok rs"
    and an: "ancount \<noteq> 0"
    and tr: "trailer = [] \<or> unat ancount \<le> length rs"
    and n: "12 \<le> n"
  shows "parseDNSResponse
           (take n (dnsMessage ident flags ancount nscount arcount domain rs trailer))
         = Some (firstECH (take (unat ancount)
                   (completeRecords (n - length (buildDNSQuery domain typeHTTPS)) rs)), None)"
proof -
  define hdr where "hdr = be16 ident @ be16 flags @ be16 1 @ be16 ancount @ be16 nscount @ be16 arcount"
  define q where "q = appendLabels [] (Split domain (CHR ''.''))"
  define M where "M = dnsMessage ident flags ancount nscount arcount domain rs trailer"
  define S where "S = take n M"
  define o0 where "o0 = 12 + length q + 5"
  have lhdr: "length hdr = 12" by (simp add: hdr_def)
  have M1: "M = hdr @ q @ 0 # [0, 65, 0, 1] @ encodeRRs rs @ trailer"
    by (simp add: M_def dnsMessage_def buildDNSQuery_question hdr_def q_def)
  have lq: "length (buildDNSQuery domain typeHTTPS) = o0"
    by (simp add: length_buildDNSQuery o0_def q_def)
  have lM: "length M = o0 + length (encodeRRs rs) + length trailer"
    by (simp add: M1 lhdr o0_def)
  have lS: "length S = min n (length M)" by (simp add: S_def)
  have S12: "\<not> length S < 12" using n lM by (simp add: lS o0_def)
  have rd: "subslice S 6 8 \<bind> Uint16 = Some ancount"
    unfolding S_def
    by (rule read16_take [where pre = "be16 ident @ be16 flags @ be16 1"
          and post = "be16 nscount @ be16 arcount @ q @ 0 # [0, 65, 0, 1] @ encodeRRs rs @ trailer"])
       (use n in \<open>simp_all add: M1 hdr_def\<close>)
  from skipLabels_walk [OF dom, of n hdr "[0, 65, 0, 1] @ encodeRRs rs @ trailer"]
  obtain k where k: "skipLabels S 12 = Some k"
    and k': "if 12 + length q < n then k = 12 + length q else n \<le> k"
    unfolding S_def M1 q_def lhdr by blast
  have start: "parseDNSResponse S = answers S (unat ancount) 0 (k + 5)"
    using S12 rd an k by (simp add: parseDNSResponse_def)
  show ?thesis
  proof (cases "n \<le> o0")
    case True
    then have "length S \<le> k + 5" using k' by (auto simp: lS o0_def split: if_splits)
    then have "answers S (unat ancount) 0 (k + 5) = Some ([], None)"
      by (rule answers_past_end)
    moreover have "completeRecords (n - o0) rs = []"
      using True by (simp add: completeRecords_0)
    ultimately show ?thesis using start by (simp add: S_def M_def lq)
  next
    case False
    then have keq: "k + 5 = o0" using k' by (auto simp: o0_def split: if_splits)
    have M2: "M = (hdr @ q @ 0 # [0, 65, 0, 1]) @ encodeRRs rs @ trailer"
      by (simp add: M1)
    have lpre: "length (hdr @ q @ 0 # [0, 65, 0, 1]) = o0"
      by (simp add: lhdr o0_def)
    have "answers (take n ((hdr @ q @ 0 # [0, 65, 0, 1]) @ encodeRRs rs @ trailer))
            (unat ancount) 0 (length (hdr @ q @ 0 # [0, 65, 0, 1]))
          = Some (firstECH (take (unat ancount - 0)
              (completeRecords (n - length (hdr @ q @ 0 # [0, 65, 0, 1])) rs)), None)"
      by (rule answers_prefix [OF ok]) (use tr in simp)
    then have "answers S (unat ancount) 0 o0
          = Some (firstECH (take (unat ancount) (completeRecords (n - o0) rs)), None)"
      unfolding lpre S_def M2 by simp
    then show ?thesis using start keq by (simp add: S_def M_def lq)
  qed
qed

lemma firstECH_others: "list_all other_rr_ok rs \<Longrightarrow> firstECH (rs @ rest) = firstECH rest"
  by (induction rs) (simp_all add: other_rr_ok_def)

lemma others_rr_ok: "list_all other_rr_ok rs \<Longrightarrow> list_all rr_ok rs"
  by (induction rs) (simp_all add: other_rr_ok_def)

lemma length_dnsMessage:
  "length (dnsMessage ident flags ancount nscount arcount domain rs trailer)
     = length (buildDNSQuery domain typeHTTPS) + length (encodeRRs rs) + length trailer"
  by (simp add: dnsMessage_def length_buildDNSQuery buildDNSQuery_question)





lemmas eval_dns = parseDNSResponse_def subslice_def index_def Uint16_def typeHTTPS_def
  parseHTTPSRecord_def encode_def encodeStd_def skipLabels.simps svcParams.simps answers.simps
  dnsMessage_def httpsRData_def buildDNSQuery_def Split.simps be16_def be32_def
  encodeName_def svcParam_def labels_ok_def params_ok_def encodeRR_def rr_ok_def httpsRR_def
  other_rr_ok_def



text \<open>
  C2 (as the source has it): for every domain whose dot-separated labels are non-empty
  and shorter than 256 bytes, and every byte string \<open>e\<close> that fits a SvcParam,
  \<^verbatim>\<open>parseDNSResponse\<close> applied to a response that echoes the question built by
  \<^verbatim>\<open>buildDNSQuery(domain, 65)\<close> and whose answer section holds one HTTPS record with
  SvcParam key 5 of value \<open>e\<close>, among any records of other types before and after it,
  the owner name of each record being either one 2-byte compression pointer or an
  uncompressed label sequence, with ANCOUNT the number of these records and any
  authority and additional sections behind them, returns the standard base64 encoding
  of \<open>e\<close> with a \<^verbatim>\<open>nil\<close> error, and that string decodes to \<open>e\<close>.
\<close>

theorem dns_roundtrip:
  assumes "labels_ok 256 (Split domain (CHR ''.''))"
    and "list_all other_rr_ok earlier"
    and "list_all other_rr_ok later"
    and "length earlier + length later < 65535"
    and "owner_ok owner"
    and "labels_ok 256 target"
    and "params_ok others"
    and "length e < 65536"
    and "length (httpsRData priority target others e after) < 65536"
  shows "parseDNSResponse
           (dnsMessage ident flags (of_nat (length earlier + 1 + length later)) nscount arcount
              domain
              (earlier @ [httpsRR owner rrClass ttl priority target others e after] @ later)
              trailer)
         = Some (EncodeToString e, None) \<and>
         DecodeString (EncodeToString e) = Some e"
proof
  let ?h = "httpsRR owner rrClass ttl priority target others e after"
  let ?rs = "earlier @ [?h] @ later"
  let ?an = "of_nat (length earlier + 1 + length later) :: 16 word"
  let ?M = "dnsMessage ident flags ?an nscount arcount domain ?rs trailer"
  have un0: "unat ?an = length earlier + 1 + length later"
    by (rule unat_len16) (use assms(4) in simp)
  have un: "unat ?an = length ?rs"
    unfolding un0 by simp
  have an: "?an \<noteq> 0"
  proof
    assume "?an = 0"
    then have "unat ?an = 0" by (simp only: unat_0)
    with un0 show False by simp
  qed
  have hok: "rr_ok ?h"
    using assms(5,9) by (simp add: rr_ok_def httpsRR_def)
  have ok: "list_all rr_ok ?rs"
    using assms(2,3) hok by (simp add: others_rr_ok)
  have "parseDNSResponse (take (length ?M) ?M)
          = Some (firstECH (take (unat ?an)
               (completeRecords (length ?M - length (buildDNSQuery domain typeHTTPS)) ?rs)), None)"
  proof (rule parseDNSResponse_prefix [OF assms(1) ok an])
    show "trailer = [] \<or> unat ?an \<le> length ?rs"
      unfolding un by simp
    show "12 \<le> length ?M"
      by (simp add: length_dnsMessage length_buildDNSQuery)
  qed
  moreover have "completeRecords (length ?M - length (buildDNSQuery domain typeHTTPS)) ?rs = ?rs"
    by (rule completeRecords_all) (simp add: length_dnsMessage)
  moreover have "firstECH ?rs = EncodeToString e"
    using parseHTTPSRecord_found [OF assms(6,7,8), of priority after]
      firstECH_others [OF assms(3), of "[]"]
    by (simp add: firstECH_others [OF assms(2)] httpsRR_def)
  ultimately show "parseDNSResponse ?M = Some (EncodeToString e, None)"
    unfolding un by simp
next
  show "DecodeString (EncodeToString e) = Some e"
    by (rule base64_roundtrip)
qed

theorem dns_roundtrip_witness:
  "labels_ok 256 (Split ''cloudflare-ech.com'' (CHR ''.'')) \<and>
   list_all other_rr_ok [cname_rr] \<and> list_all other_rr_ok [a_rr] \<and>
   owner_ok (Compressed 0 0x30) \<and> labels_ok 256 [] \<and>
   params_ok [(1, [2, 0x68, 0x32])] \<and>
   length (httpsRData 1 [] [(1, [2, 0x68, 0x32])] [0x4d, 0x61, 0x6e] []) < 65536 \<and>
   parseDNSResponse
     (dnsMessage 1 0x8180 3 0 1 ''cloudflare-ech.com''
        ([cname_rr] @ [httpsRR (Compressed 0 0x30) 1 60 1 [] [(1, [2, 0x68, 0x32])]
                         [0x4d, 0x61, 0x6e] []] @ [a_rr])
        [0, 0, 41, 4, 208, 0, 0, 0, 0, 0, 0])
     = Some (''TWFu'', None) \<and>
   DecodeString ''TWFu'' = Some [0x4d, 0x61, 0x6e]"
  using dns_roundtrip [where domain = "''cloudflare-ech.com''" and owner = "Compressed 0 0x30"
      and earlier = "[cname_rr]" and later = "[a_rr]"
      and target = "[]" and others = "[(1, [2, 0x68, 0x32])]" and e = "[0x4d, 0x61, 0x6e]"
      and priority = 1 and after = "[]" and ident = 1 and flags = "0x8180" and rrClass = 1
      and ttl = 60 and nscount = 0 and arcount = 1
      and trailer = "[0, 0, 41, 4, 208, 0, 0, 0, 0, 0, 0]"]
  by (simp add: labels_ok_def params_ok_def Split.simps httpsRData_def svcParam_def
      encodeName_def encode_def encodeStd_def other_rr_ok_def rr_ok_def cname_rr_def a_rr_def
      typeHTTPS_def)

text \<open>
  C2 (as the specification words it, for every well-formed answer) fails: in the answer
  to the question for \<open>a.b\<close> below, the owner name of the HTTPS record is the label \<open>a\<close>
  followed by a compression pointer to offset 14, where the label \<open>b\<close> of the question
  stands (a sequence of labels ending with a pointer, RFC 1035, section 4.1.4). The
  parser reads the pointer's first byte as a label length, leaves the message, and the
  \<open>ech\<close> value is not found; with the owner name written as the pointer \<open>C0 0C\<close> to the
  whole question name it is.
\<close>

theorem dns_roundtrip_counterexample:
  "drop 12 (buildDNSQuery ''a.b'' typeHTTPS) = [1, 0x61, 1, 0x62, 0, 0, 65, 0, 1] \<and>
   parseDNSResponse
     [0, 1, 0x81, 0x80, 0, 1, 0, 1, 0, 0, 0, 0,
      1, 0x61, 1, 0x62, 0, 0, 65, 0, 1,
      1, 0x61, 0xC0, 0x0E, 0, 65, 0, 1, 0, 0, 0, 60, 0, 10,
      0, 1, 0, 0, 5, 0, 3, 0x4d, 0x61, 0x6e]
     = Some ([], None) \<and>
   parseDNSResponse
     [0, 1, 0x81, 0x80, 0, 1, 0, 1, 0, 0, 0, 0,
      1, 0x61, 1, 0x62, 0, 0, 65, 0, 1,
      0xC0, 0x0C, 0, 65, 0, 1, 0, 0, 0, 60, 0, 10,
      0, 1, 0, 0, 5, 0, 3, 0x4d, 0x61, 0x6e]
     = Some (''TWFu'', None) \<and>
   EncodeToString [0x4d, 0x61, 0x6e] = ''TWFu''"
  by (simp add: eval_dns)

text \<open>
  C6 (as the source has it): \<^verbatim>\<open>parseHTTPSRecord\<close> skips a TargetName that is an uncompressed
  label sequence (or the root), so that a SvcParam with key 5 after it is found and the
  base64 of its value returned. It does not recognise a compression pointer: the first
  byte of the pointer is read as a label length of at least 192, and in RDATA with fewer
  bytes than that after the pointer nothing is found.
\<close>

theorem parseHTTPSRecord_targetname:
  "(labels_ok 256 target \<and> params_ok others \<and> length e < 65536 \<longrightarrow>
      parseHTTPSRecord (httpsRData priority target others e after) = Some (EncodeToString e)) \<and>
   (p0 AND 0xC0 = 0xC0 \<and> length rest < unat p0 \<longrightarrow>
      parseHTTPSRecord (be16 priority @ p0 # p1 # rest) = Some [])"
proof (intro conjI impI)
  assume "labels_ok 256 target \<and> params_ok others \<and> length e < 65536"
  then show "parseHTTPSRecord (httpsRData priority target others e after) = Some (EncodeToString e)"
    by (simp add: parseHTTPSRecord_found)
next
  assume a: "p0 AND 0xC0 = 0xC0 \<and> length rest < unat p0"
  let ?d = "be16 priority @ p0 # p1 # rest"
  have nz: "p0 \<noteq> 0" using a by auto
  have i: "index ?d 2 = Some p0" by (simp add: index_def be16_def)
  have "skipLabels ?d (2 + unat p0 + 1) = Some (2 + unat p0 + 1)"
    using a by (subst skipLabels.simps) simp
  then have s: "skipLabels ?d 2 = Some (2 + unat p0 + 1)"
    using i nz by (subst skipLabels.simps) simp
  have "svcParams ?d (2 + unat p0 + 1 + 1) = Some []"
    using a by (subst svcParams.simps) simp
  then show "parseHTTPSRecord ?d = Some []"
    using i nz s by (simp add: parseHTTPSRecord_def)
qed

theorem parseHTTPSRecord_targetname_witness:
  "labels_ok 256 [''svc'', ''example''] \<and> params_ok [(1, [2, 0x68, 0x32])] \<and>
   parseHTTPSRecord (httpsRData 1 [''svc'', ''example''] [(1, [2, 0x68, 0x32])] [0x4d, 0x61, 0x6e] [])
     = Some ''TWFu'' \<and>
   (0xC0 :: byte) AND 0xC0 = 0xC0 \<and>
   parseHTTPSRecord (be16 1 @ [0xC0, 0x0C, 0, 5, 0, 3, 0x4d, 0x61, 0x6e]) = Some []"
  using parseHTTPSRecord_targetname [where target = "[''svc'', ''example'']"
      and others = "[(1, [2, 0x68, 0x32])]" and e = "[0x4d, 0x61, 0x6e]" and priority = 1
      and after = "[]" and ?p0.0 = "0xC0" and ?p1.0 = "0x0C"
      and rest = "[0, 5, 0, 3, 0x4d, 0x61, 0x6e]"]
  by (simp add: labels_ok_def params_ok_def encode_def encodeStd_def)

text \<open>
  C6 (as the specification words it) fails: with the TargetName encoded as the pointer
  \<open>C0 0C\<close> the key-5 SvcParam that follows is not found, while with the root name in
  its place it is.
\<close>

theorem parseHTTPSRecord_pointer_counterexample:
  "parseHTTPSRecord [0, 1, 0xC0, 0x0C, 0, 5, 0, 3, 0x4d, 0x61, 0x6e] = Some [] \<and>
   parseHTTPSRecord [0, 1, 0, 0, 5, 0, 3, 0x4d, 0x61, 0x6e] = Some ''TWFu''"
  by (simp add: eval_dns)

section \<open>HTTP proxy properties\<close>

lemma Index_takeWhile:
  "Index s sep = (if sep \<in> set s then int (length (takeWhile (\<lambda>c. c \<noteq> sep) s)) else - 1)"
  by (induction s) (auto simp: Let_def)

lemma Split_first: "Split s sep ! 0 = takeWhile (\<lambda>c. c \<noteq> sep) s"
proof (cases "sep \<in> set s")
  case False
  then have tw: "takeWhile (\<lambda>c. c \<noteq> sep) s = s"
    by (auto simp: takeWhile_eq_all_conv)
  show ?thesis
    using False by (subst Split.simps) (simp add: Index_takeWhile tw)
next
  case True
  have "take (length (takeWhile (\<lambda>c. c \<noteq> sep) s)) s = takeWhile (\<lambda>c. c \<noteq> sep) s"
    by (rule takeWhile_eq_take [symmetric])
  with True show ?thesis
    by (subst Split.simps) (simp add: Index_takeWhile Let_def)
qed

lemma writeHeaders_sanitized:
  "writeHeaders lib requestBuilder headerLines
     = requestBuilder @ concat (map (\<lambda>line. line @ CRLF) (sanitized lib headerLines))"
  by (induction headerLines arbitrary: requestBuilder)
     (simp_all add: sanitized_def retained_def rawKey_def Split_first Let_def)

text \<open>
  C3 (as the source has it): for every list of header lines, the first frame built for a
  non-CONNECT proxy request is the request line, then exactly the header lines whose
  key (the text before the first colon, or the whole line when it has no colon), with
  the white space around it trimmed by \<^verbatim>\<open>strings.TrimSpace\<close> and then lowercased by
  \<^verbatim>\<open>strings.ToLower\<close>, is neither \<open>proxy-connection\<close> nor \<open>proxy-authorization\<close>, each
  verbatim, in their original order and followed by CRLF, then one blank line (CRLF),
  then the body bytes.
\<close>

theorem firstFrame_headers:
  "firstFrame lib method path httpVersion headerLines headers reader
     = method @ '' '' @ path @ '' '' @ httpVersion @ CRLF
       @ concat (map (\<lambda>line. line @ CRLF) (sanitized lib headerLines))
       @ CRLF @ readBody lib headers reader"
  by (simp add: firstFrame_def writeHeaders_sanitized)

theorem firstFrame_headers_witness:
  "sanitized asciiLib [''Host: example.com'', ''Proxy-Connection: keep-alive'',
       ''Accept: */*'', '' PROXY-Authorization : Basic abc'', ''X-Proxy-Connection: 1'']
     = [''Host: example.com'', ''Accept: */*'', ''X-Proxy-Connection: 1''] \<and>
   firstFrame asciiLib ''GET'' ''/path'' ''HTTP/1.1''
       [''Host: example.com'', ''Proxy-Connection: keep-alive'',
        ''Accept: */*'', '' PROXY-Authorization : Basic abc'', ''X-Proxy-Connection: 1'']
       Map.empty []
     = ''GET /path HTTP/1.1'' @ CRLF @ ''Host: example.com'' @ CRLF @ ''Accept: */*'' @ CRLF
       @ ''X-Proxy-Connection: 1'' @ CRLF @ CRLF"
proof -
  have s: "sanitized asciiLib [''Host: example.com'', ''Proxy-Connection: keep-alive'',
       ''Accept: */*'', '' PROXY-Authorization : Basic abc'', ''X-Proxy-Connection: 1'']
     = [''Host: example.com'', ''Accept: */*'', ''X-Proxy-Connection: 1'']"
    by (simp add: sanitized_def retained_def rawKey_def asciiLib_def asciiTrimSpace_def
        asciiToLower_def toLower_def isSpace_def char_of_def bit_0)
  have b: "readBody asciiLib Map.empty [] = []"
    by (simp add: readBody_def lookup_def)
  show ?thesis
    using firstFrame_headers [of asciiLib "''GET''" "''/path''" "''HTTP/1.1''"
        "[''Host: example.com'', ''Proxy-Connection: keep-alive'',
          ''Accept: */*'', '' PROXY-Authorization : Basic abc'', ''X-Proxy-Connection: 1'']"
        Map.empty "[]"]
    by (simp add: s b)
qed

text \<open>
  C3 (as the specification words it) fails. In the request below the text before the
  colon of the second header line is \<^verbatim>\<open>Proxy-Connection\<close> followed by a space, which
  lowercased is neither of the two names, and the third header line has no colon and
  so no key; the first frame has neither line.
\<close>

theorem firstFrame_trimmed_key_counterexample:
  "ascii_only (''GET http://example.com/ HTTP/1.1'' @ CRLF @ ''Host: example.com'' @ CRLF
        @ ''Proxy-Connection : keep-alive'' @ CRLF @ ''proxy-authorization'' @ CRLF @ CRLF) \<and>
   handleHTTP asciiLib (CHR ''G'')
       (''ET http://example.com/ HTTP/1.1'' @ CRLF @ ''Host: example.com'' @ CRLF
        @ ''Proxy-Connection : keep-alive'' @ CRLF @ ''proxy-authorization'' @ CRLF @ CRLF)
     = Tunnel ''example.com:80'' modeHTTPProxy
         (''GET / HTTP/1.1'' @ CRLF @ ''Host: example.com'' @ CRLF @ CRLF) \<and>
   Split ''Proxy-Connection : keep-alive'' (CHR '':'') ! 0 = ''Proxy-Connection '' \<and>
   ToLower asciiLib ''Proxy-Connection '' = ''proxy-connection '' \<and>
   ''proxy-connection '' \<noteq> ''proxy-connection'' \<and>
   ''proxy-connection '' \<noteq> ''proxy-authorization'' \<and>
   Index ''proxy-authorization'' (CHR '':'') = - 1"
  by (simp add: eval_http)

lemma CONNECT_not_forwarded: "''CONNECT'' \<notin> set forwardMethods"
  by (simp add: forwardMethods_def)

lemma handleHTTP_forwards_firstFrame:
  assumes "ReadString (byteString firstByte @ conn) (CHR 0x0A) = Some (requestLine, reader)"
    and "Fields lib requestLine = method # requestURL # httpVersion # extra"
    and "readHeaders lib reader Map.empty [] = Some (headers, headerLines, reader')"
    and "method \<in> set forwardMethods"
  shows "handleHTTP lib firstByte conn = Respond (''HTTP/1.1 400 Bad Request'' @ CRLF @ CRLF) \<or>
         (\<exists>target path. handleHTTP lib firstByte conn =
            Tunnel target modeHTTPProxy
              (firstFrame lib method path httpVersion headerLines headers reader'))"
proof -
  have nc: "method \<noteq> ''CONNECT''"
    using assms(4) CONNECT_not_forwarded by auto
  show ?thesis
    using assms nc by (auto simp: handleHTTP_def Let_def)
qed




text \<open>
  C8 (as the source has it): \<^verbatim>\<open>handleHTTP\<close> answers \<^verbatim>\<open>400 Bad Request\<close> to a request with a
  forwardable method whose target is empty (a request target without the \<^verbatim>\<open>http://\<close>
  prefix and no \<^verbatim>\<open>Host\<close> header, or the bare request target \<^verbatim>\<open>http://\<close>), and only to
  requests with at least three fields in the request line and a forwardable method. A
  request line that never ends, a request line with fewer than three fields, and
  headers that never end make it return with nothing written to the client.
\<close>

theorem handleHTTP_malformed:
  "(ReadString (byteString firstByte @ conn) (CHR 0x0A) = None \<longrightarrow>
      handleHTTP lib firstByte conn = Closed) \<and>
   (ReadString (byteString firstByte @ conn) (CHR 0x0A) = Some (requestLine, reader) \<and>
    length (Fields lib requestLine) < 3 \<longrightarrow>
      handleHTTP lib firstByte conn = Closed) \<and>
   (ReadString (byteString firstByte @ conn) (CHR 0x0A) = Some (requestLine, reader) \<and>
    Fields lib requestLine = method # requestURL # httpVersion # extra \<and>
    readHeaders lib reader Map.empty [] = None \<longrightarrow>
      handleHTTP lib firstByte conn = Closed) \<and>
   (ReadString (byteString firstByte @ conn) (CHR 0x0A) = Some (requestLine, reader) \<and>
    Fields lib requestLine = method # requestURL # httpVersion # extra \<and>
    readHeaders lib reader Map.empty [] = Some (headers, headerLines, reader') \<and>
    method \<in> set forwardMethods \<and>
    (requestURL = ''http://'' \<or>
     \<not> HasPrefix requestURL ''http://'' \<and> lookup headers ''host'' = []) \<longrightarrow>
      handleHTTP lib firstByte conn = Respond (''HTTP/1.1 400 Bad Request'' @ CRLF @ CRLF)) \<and>
   (handleHTTP lib firstByte conn = Respond (''HTTP/1.1 400 Bad Request'' @ CRLF @ CRLF) \<longrightarrow>
      (\<exists>requestLine reader.
          ReadString (byteString firstByte @ conn) (CHR 0x0A) = Some (requestLine, reader) \<and>
          3 \<le> length (Fields lib requestLine) \<and>
          Fields lib requestLine ! 0 \<in> set forwardMethods))"
proof (intro conjI impI)
  assume "ReadString (byteString firstByte @ conn) (CHR 0x0A) = None"
  then show "handleHTTP lib firstByte conn = Closed"
    by (simp add: handleHTTP_def)
next
  assume "ReadString (byteString firstByte @ conn) (CHR 0x0A) = Some (requestLine, reader) \<and>
    length (Fields lib requestLine) < 3"
  then show "handleHTTP lib firstByte conn = Closed"
    by (simp add: handleHTTP_def)
next
  assume "ReadString (byteString firstByte @ conn) (CHR 0x0A) = Some (requestLine, reader) \<and>
    Fields lib requestLine = method # requestURL # httpVersion # extra \<and>
    readHeaders lib reader Map.empty [] = None"
  then show "handleHTTP lib firstByte conn = Closed"
    by (simp add: handleHTTP_def)
next
  assume "ReadString (byteString firstByte @ conn) (CHR 0x0A) = Some (requestLine, reader) \<and>
    Fields lib requestLine = method # requestURL # httpVersion # extra \<and>
    readHeaders lib reader Map.empty [] = Some (headers, headerLines, reader') \<and>
    method \<in> set forwardMethods \<and>
    (requestURL = ''http://'' \<or>
     \<not> HasPrefix requestURL ''http://'' \<and> lookup headers ''host'' = [])"
  moreover from this have "method \<noteq> ''CONNECT''"
    using CONNECT_not_forwarded by auto
  ultimately show "handleHTTP lib firstByte conn
      = Respond (''HTTP/1.1 400 Bad Request'' @ CRLF @ CRLF)"
    by (auto simp: handleHTTP_def Let_def HasPrefix_def TrimPrefix_def)
next
  assume r: "handleHTTP lib firstByte conn = Respond (''HTTP/1.1 400 Bad Request'' @ CRLF @ CRLF)"
  show "\<exists>requestLine reader.
          ReadString (byteString firstByte @ conn) (CHR 0x0A) = Some (requestLine, reader) \<and>
          3 \<le> length (Fields lib requestLine) \<and>
          Fields lib requestLine ! 0 \<in> set forwardMethods"
  proof (cases "ReadString (byteString firstByte @ conn) (CHR 0x0A)")
    case None
    with r show ?thesis by (simp add: handleHTTP_def)
  next
    case (Some lr)
    obtain requestLine reader where lr: "lr = (requestLine, reader)" by (cases lr)
    have three: "3 \<le> length (Fields lib requestLine)"
      using r Some lr
      by (cases "length (Fields lib requestLine) < 3") (simp_all add: handleHTTP_def)
    have "Fields lib requestLine ! 0 \<in> set forwardMethods"
      using r Some lr three
      by (auto simp: handleHTTP_def Let_def split: option.splits if_splits prod.splits)
    with Some lr three show ?thesis by simp
  qed
qed

theorem handleHTTP_malformed_witness:
  "ReadString (byteString (CHR ''G'') @ ''ET /'' @ CRLF @ CRLF) (CHR 0x0A)
     = Some (''GET /'' @ CRLF, CRLF) \<and>
   length (Fields asciiLib (''GET /'' @ CRLF)) < 3 \<and>
   handleHTTP asciiLib (CHR ''G'') (''ET /'' @ CRLF @ CRLF) = Closed \<and>
   ReadString (byteString (CHR ''G'') @ ''ET / HTTP/1.1'') (CHR 0x0A) = None \<and>
   handleHTTP asciiLib (CHR ''G'') ''ET / HTTP/1.1'' = Closed \<and>
   readHeaders asciiLib ''Host: a'' Map.empty [] = None \<and>
   handleHTTP asciiLib (CHR ''G'') (''ET / HTTP/1.1'' @ CRLF @ ''Host: a'') = Closed \<and>
   Fields asciiLib (''GET / HTTP/1.1'' @ CRLF) = [''GET'', ''/'', ''HTTP/1.1''] \<and>
   handleHTTP asciiLib (CHR ''G'') (''ET / HTTP/1.1'' @ CRLF @ ''Accept: */*'' @ CRLF @ CRLF)
     = Respond (''HTTP/1.1 400 Bad Request'' @ CRLF @ CRLF)"
  using handleHTTP_malformed [of "CHR ''G''" "''ET /'' @ CRLF @ CRLF" asciiLib
       "''GET /'' @ CRLF" CRLF "[]" "[]" "[]" "[]" Map.empty "[]" "[]"]
    handleHTTP_malformed [of "CHR ''G''" "''ET / HTTP/1.1''" asciiLib
       "[]" "[]" "[]" "[]" "[]" "[]" Map.empty "[]" "[]"]
    handleHTTP_malformed [of "CHR ''G''" "''ET / HTTP/1.1'' @ CRLF @ ''Host: a''" asciiLib
       "''GET / HTTP/1.1'' @ CRLF" "''Host: a''" "''GET''" "''/''" "''HTTP/1.1''" "[]"
       Map.empty "[]" "[]"]
    handleHTTP_malformed [of "CHR ''G''"
       "''ET / HTTP/1.1'' @ CRLF @ ''Accept: */*'' @ CRLF @ CRLF" asciiLib
       "''GET / HTTP/1.1'' @ CRLF" "''Accept: */*'' @ CRLF @ CRLF" "''GET''" "''/''"
       "''HTTP/1.1''" "[]" "[''accept'' \<mapsto> ''*/*'']" "[''Accept: */*'']" "[]"]
  by (simp add: eval_http)

text \<open>
  C8 (as the specification words it) fails: the request line \<^verbatim>\<open>GET /\<close> has two fields, and
  the handler returns without writing \<^verbatim>\<open>400 Bad Request\<close>.
\<close>

theorem handleHTTP_short_request_line_counterexample:
  "ascii_only (''GET /'' @ CRLF @ CRLF) \<and>
   length (Fields asciiLib (''GET /'' @ CRLF)) = 2 \<and>
   handleHTTP asciiLib (CHR ''G'') (''ET /'' @ CRLF @ CRLF) = Closed \<and>
   handleHTTP asciiLib (CHR ''G'') (''ET /'' @ CRLF @ CRLF)
     \<noteq> Respond (''HTTP/1.1 400 Bad Request'' @ CRLF @ CRLF)"
  by (simp add: eval_http)

end
